theory Spec2Isabelle
  imports Complex_Main "HOL-Library.Sublist"
begin

section \<open>Python values the code relies on\<close>

text \<open>
  Python's slice \<^verbatim>\<open>xs[i:j]\<close> on a list of length \<open>n\<close>: a negative bound counts
  from the end, and both bounds are clamped to \<open>[0, n]\<close>. \<open>py_slice_bounds\<close> gives the
  clamped bounds, \<open>py_slice\<close> the elements between them.
\<close>

definition py_clamp :: "nat \<Rightarrow> int \<Rightarrow> nat" where
  "py_clamp n i = (if i < 0 then nat (max (i + int n) 0) else nat (min i (int n)))"

definition py_slice_bounds :: "nat \<Rightarrow> int \<Rightarrow> int \<Rightarrow> nat \<times> nat" where
  "py_slice_bounds n i j = (py_clamp n i, py_clamp n j)"

definition slice_of :: "'a list \<Rightarrow> nat \<times> nat \<Rightarrow> 'a list" where
  "slice_of xs b = take (snd b - fst b) (drop (fst b) xs)"

definition py_slice :: "'a list \<Rightarrow> int \<Rightarrow> int \<Rightarrow> 'a list" where
  "py_slice xs i j = slice_of xs (py_slice_bounds (length xs) i j)"

section \<open>The chunker (vector\_db.py)\<close>

text \<open>
  The tokenizer \<^verbatim>\<open>tiktoken.get_encoding("cl100k_base")\<close> is an external library:
  it is a parameter of the model, a pair of functions between text and token lists.
\<close>

type_synonym token = nat

record encoding =
  encode :: "string \<Rightarrow> token list"
  decode :: "token list \<Rightarrow> string"

text \<open>
  \<^verbatim>\<open>
  start = 0
  while start < len(tokens):
      end = start + max_tokens
      chunk_tokens = tokens[start:end]
      chunk_text = encoding.decode(chunk_tokens)
      chunks.append(chunk_text)
      start += max_tokens - overlap
  return chunks
  \<close>
  The loop has no bound of its own, so it is a partial function: \<open>None\<close> is "does
  not return".
\<close>

partial_function (option) chunk_loop ::
  "encoding \<Rightarrow> token list \<Rightarrow> int \<Rightarrow> int \<Rightarrow> int \<Rightarrow> string list \<Rightarrow> string list option" where
  "chunk_loop enc tokens max_tokens overlap start chunks =
     (if start < int (length tokens) then
        (let end = start + max_tokens;
             chunk_tokens = py_slice tokens start end;
             chunk_text = decode enc chunk_tokens
         in chunk_loop enc tokens max_tokens overlap (start + (max_tokens - overlap))
              (chunks @ [chunk_text]))
      else Some chunks)"

declare chunk_loop.simps [code]

definition chunk_text_by_tokens :: "encoding \<Rightarrow> string \<Rightarrow> int \<Rightarrow> int \<Rightarrow> string list option" where
  "chunk_text_by_tokens enc text max_tokens overlap =
     chunk_loop enc (encode enc text) max_tokens overlap 0 []"

text \<open>
  The same loop, recording for each iteration the token window \<open>[lo, hi)\<close> that the
  slice \<^verbatim>\<open>tokens[start:end]\<close> selects instead of its decoded text.
\<close>

partial_function (option) window_loop ::
  "nat \<Rightarrow> int \<Rightarrow> int \<Rightarrow> int \<Rightarrow> (nat \<times> nat) list \<Rightarrow> (nat \<times> nat) list option" where
  "window_loop n max_tokens overlap start ws =
     (if start < int n then
        window_loop n max_tokens overlap (start + (max_tokens - overlap))
          (ws @ [py_slice_bounds n start (start + max_tokens)])
      else Some ws)"

declare window_loop.simps [code]

definition chunk_windows :: "encoding \<Rightarrow> string \<Rightarrow> int \<Rightarrow> int \<Rightarrow> (nat \<times> nat) list option" where
  "chunk_windows enc text max_tokens overlap =
     window_loop (length (encode enc text)) max_tokens overlap 0 []"

text \<open>The token indices of a window, and of a list of windows.\<close>

definition window_indices :: "nat \<times> nat \<Rightarrow> nat list" where
  "window_indices w = [fst w..<snd w]"

definition covered :: "(nat \<times> nat) list \<Rightarrow> nat set" where
  "covered ws = set (concat (map window_indices ws))"

text \<open>The number of token indices two windows share.\<close>

definition shared :: "nat \<times> nat \<Rightarrow> nat \<times> nat \<Rightarrow> nat" where
  "shared a b = length (filter (\<lambda>i. i \<in> set (window_indices b)) (window_indices a))"

text \<open>
  The chunk count as the specification gives it: \<open>ceil((T - O) / (W - O))\<close> when
  \<open>T > O\<close>, else 1, or 0 if \<open>T = 0\<close>.
\<close>

definition spec_chunk_count :: "int \<Rightarrow> int \<Rightarrow> int \<Rightarrow> int" where
  "spec_chunk_count t w ov =
     (if t = 0 then 0 else if t > ov then \<lceil>real_of_int (t - ov) / real_of_int (w - ov)\<rceil> else 1)"

text \<open>An example encoding for closed instances: one token per character.\<close>

definition char_encoding :: encoding where
  "char_encoding = \<lparr>encode = map of_char, decode = map char_of\<rparr>"

text \<open>The window of iteration \<open>k\<close> of the loop that starts at \<open>start\<close>.\<close>

definition nth_bounds :: "nat \<Rightarrow> int \<Rightarrow> int \<Rightarrow> int \<Rightarrow> nat \<Rightarrow> nat \<times> nat" where
  "nth_bounds n max_tokens overlap start k =
     py_slice_bounds n (start + int k * (max_tokens - overlap))
       (start + int k * (max_tokens - overlap) + max_tokens)"

section \<open>Python library functions the code calls\<close>

text \<open>
  Text is a list of characters with code points below 256. \<^verbatim>\<open>str(n)\<close> and an
  integer inside an f-string print the decimal digits.
\<close>

fun str_nat :: "nat \<Rightarrow> string" where
  "str_nat n = (if n < 10 then [char_of (48 + n)] else str_nat (n div 10) @ [char_of (48 + n mod 10)])"

declare str_nat.simps [simp del]

definition str_int :: "int \<Rightarrow> string" where
  "str_int i = (if i < 0 then CHR ''-'' # str_nat (nat (- i)) else str_nat (nat i))"

text \<open>\<^verbatim>\<open>sep.join(xs)\<close>.\<close>

fun join :: "string \<Rightarrow> string list \<Rightarrow> string" where
  "join sep [] = []"
| "join sep [x] = x"
| "join sep (x # y # ys) = x @ sep @ join sep (y # ys)"

text \<open>
  \<^verbatim>\<open>str.strip()\<close> removes leading and trailing whitespace: the characters for which
  \<^verbatim>\<open>str.isspace()\<close> holds, which below 256 are tab to carriage return, the four
  separators 28 to 31, space, 133 and 160.
\<close>

definition isspace :: "char \<Rightarrow> bool" where
  "isspace c = (let n = (of_char c :: nat) in (9 \<le> n \<and> n \<le> 13) \<or> (28 \<le> n \<and> n \<le> 32) \<or> n = 133 \<or> n = 160)"

definition strip :: "string \<Rightarrow> string" where
  "strip s = rev (dropWhile isspace (rev (dropWhile isspace s)))"

text \<open>
  \<^verbatim>\<open>os.path.basename\<close> and \<^verbatim>\<open>os.path.splitext\<close> of \<^verbatim>\<open>posixpath\<close>: the part after the
  last slash; and the split at the last dot of the last path component, unless that
  component has only dots before it.
\<close>

definition basename :: "string \<Rightarrow> string" where
  "basename p = rev (takeWhile (\<lambda>c. c \<noteq> CHR ''/'') (rev p))"

definition splitext :: "string \<Rightarrow> string \<times> string" where
  "splitext p =
     (let rp = rev p;
          ext = takeWhile (\<lambda>c. c \<noteq> CHR ''.'') rp;
          rest = dropWhile (\<lambda>c. c \<noteq> CHR ''.'') rp
      in if rest = [] \<or> CHR ''/'' \<in> set ext then (p, [])
         else (let root = tl rest;
                   name = takeWhile (\<lambda>c. c \<noteq> CHR ''/'') root
               in if list_ex (\<lambda>c. c \<noteq> CHR ''.'') name
                  then (rev root, CHR ''.'' # rev ext)
                  else (p, [])))"

text \<open>
  \<^verbatim>\<open>range(start, stop, step)\<close> as a list; a zero step raises \<^verbatim>\<open>ValueError\<close>.
  An exception is identified by the text \<^verbatim>\<open>str(e)\<close> that the handlers print.
\<close>

datatype exn = Exception (str: string)

definition py_range :: "int \<Rightarrow> int \<Rightarrow> int \<Rightarrow> exn + int list" where
  "py_range start stop step =
     (if step = 0 then Inl (Exception ''range() arg 3 must not be zero'')
      else if 0 < step
        then Inr (map (\<lambda>k. start + int k * step) [0..<nat ((stop - start + step - 1) div step)])
        else Inr (map (\<lambda>k. start + int k * step) [0..<nat ((start - stop - step - 1) div (- step))]))"

text \<open>\<^verbatim>\<open>xs[0]\<close> raises \<^verbatim>\<open>IndexError\<close> on an empty list.\<close>

definition item0 :: "'a list \<Rightarrow> exn + 'a" where
  "item0 xs = (case xs of [] \<Rightarrow> Inl (Exception ''list index out of range'') | x # _ \<Rightarrow> Inr x)"

text \<open>
  The values that dictionaries of the code hold: metadata values of the index (strings,
  numbers, booleans, lists) and the dictionaries built from them. A dictionary is the
  list of its items in insertion order. A Python float is modelled by a real; the code
  never computes with one.
\<close>

datatype py_value =
    PyStr string
  | PyInt int
  | PyFloat real
  | PyBool bool
  | PyList "py_value list"
  | PyDict "(string \<times> py_value) list"

type_synonym py_dict = "(string \<times> py_value) list"

text \<open>\<^verbatim>\<open>d.get(key, default)\<close> and \<^verbatim>\<open>key in d\<close>.\<close>

definition dict_get :: "py_dict \<Rightarrow> string \<Rightarrow> py_value \<Rightarrow> py_value" where
  "dict_get d k dflt = (case map_of d k of None \<Rightarrow> dflt | Some v \<Rightarrow> v)"

definition has_key :: "py_dict \<Rightarrow> string \<Rightarrow> bool" where
  "has_key d k = (map_of d k \<noteq> None)"

text \<open>
  \<^verbatim>\<open>v[:n]\<close> on a value: strings and lists are sliced, anything else raises
  \<^verbatim>\<open>TypeError\<close>.
\<close>

definition type_name :: "py_value \<Rightarrow> string" where
  "type_name v = (case v of PyStr _ \<Rightarrow> ''str'' | PyInt _ \<Rightarrow> ''int'' | PyFloat _ \<Rightarrow> ''float''
     | PyBool _ \<Rightarrow> ''bool'' | PyList _ \<Rightarrow> ''list'' | PyDict _ \<Rightarrow> ''dict'')"

definition slice_to :: "py_value \<Rightarrow> nat \<Rightarrow> exn + py_value" where
  "slice_to v n = (case v of
       PyStr s \<Rightarrow> Inr (PyStr (take n s))
     | PyList xs \<Rightarrow> Inr (PyList (take n xs))
     | _ \<Rightarrow> Inl (Exception ([CHR 0x27] @ type_name v @ [CHR 0x27] @ '' object is not subscriptable'')))"

text \<open>
  Library functions whose results the claims do not depend on are parameters:
  \<^verbatim>\<open>round(x, n)\<close>, the float format \<^verbatim>\<open>{x:.4f}\<close>, the format of a value inside an
  f-string, \<^verbatim>\<open>json.dumps\<close>, and the validating constructor of the pydantic model
  \<^verbatim>\<open>SearchResult\<close> of api\_server.py.
\<close>

record SearchResult =
  result_score :: real
  result_source :: string
  result_content :: string

record pylib =
  py_round :: "real \<Rightarrow> int \<Rightarrow> real"
  format_4f :: "real \<Rightarrow> string"
  format_value :: "py_value \<Rightarrow> string"
  json_dumps :: "py_value \<Rightarrow> nat option \<Rightarrow> string"
  new_SearchResult :: "real \<Rightarrow> py_value \<Rightarrow> py_value \<Rightarrow> exn + SearchResult"

section \<open>The external services and the state of a run\<close>

text \<open>
  A match returned by the index (\<^verbatim>\<open>match.score\<close>, \<^verbatim>\<open>match.metadata\<close>) and a vector
  dictionary \<^verbatim>\<open>{"id": \<dots>, "values": \<dots>, "metadata": {\<dots>}}\<close> as the ingestion builds it.
\<close>

record pinecone_match =
  score :: real
  metadata :: py_dict

record vector_dict =
  vec_id :: string
  vec_values :: "real list"
  vec_metadata :: py_dict

text \<open>
  The embedding service and the vector index are outside the program: each call takes
  the state \<open>'w\<close> of the outside world, answers or raises, and leaves a new state. So
  two calls with the same arguments may answer differently.
  \<^item> \<open>co_embed texts model input_type\<close> is \<^verbatim>\<open>co.embed(texts=\<dots>, model=\<dots>, input_type=\<dots>)\<close>
    and answers \<^verbatim>\<open>response.embeddings\<close>;
  \<^item> \<open>index_query vector top_k include_metadata\<close> is \<^verbatim>\<open>index.query(\<dots>)\<close> and answers
    \<^verbatim>\<open>results.matches\<close>;
  \<^item> \<open>index_upsert vectors\<close> is \<^verbatim>\<open>index.upsert(vectors=\<dots>)\<close>.
\<close>

record 'w services =
  co_embed :: "string list \<Rightarrow> string \<Rightarrow> string \<Rightarrow> 'w \<Rightarrow> (exn + real list list) \<times> 'w"
  index_query :: "real list \<Rightarrow> int \<Rightarrow> bool \<Rightarrow> 'w \<Rightarrow> (exn + pinecone_match list) \<times> 'w"
  index_upsert :: "vector_dict list \<Rightarrow> 'w \<Rightarrow> (exn + unit) \<times> 'w"

text \<open>The network calls a run has issued, in order, with their arguments.\<close>

datatype net_call =
    EmbedCall (call_texts: "string list") (call_model: string) (call_input_type: string)
  | QueryCall (call_vector: "real list") (call_top_k: int) (call_include_metadata: bool)
  | UpsertCall (call_vectors: "vector_dict list")

text \<open>
  The state of a run: the outside world, the network calls issued so far and the lines
  printed so far.
\<close>

record 'w state =
  ext :: 'w
  calls :: "net_call list"
  out :: "string list"

definition print :: "string \<Rightarrow> 'w state \<Rightarrow> 'w state" where
  "print line st = st\<lparr>out := out st @ [line]\<rparr>"

definition do_embed ::
  "'w services \<Rightarrow> string list \<Rightarrow> string \<Rightarrow> string \<Rightarrow> 'w state \<Rightarrow> (exn + real list list) \<times> 'w state" where
  "do_embed sv txts mdl intent st =
     (case co_embed sv txts mdl intent (ext st) of
        (r, w) \<Rightarrow> (r, st\<lparr>ext := w, calls := calls st @ [EmbedCall txts mdl intent]\<rparr>))"

definition do_query ::
  "'w services \<Rightarrow> real list \<Rightarrow> int \<Rightarrow> bool \<Rightarrow> 'w state \<Rightarrow> (exn + pinecone_match list) \<times> 'w state" where
  "do_query sv v k incl st =
     (case index_query sv v k incl (ext st) of
        (r, w) \<Rightarrow> (r, st\<lparr>ext := w, calls := calls st @ [QueryCall v k incl]\<rparr>))"

definition do_upsert ::
  "'w services \<Rightarrow> vector_dict list \<Rightarrow> 'w state \<Rightarrow> (exn + unit) \<times> 'w state" where
  "do_upsert sv vs st =
     (case index_upsert sv vs (ext st) of
        (r, w) \<Rightarrow> (r, st\<lparr>ext := w, calls := calls st @ [UpsertCall vs]\<rparr>))"

text \<open>
  Sequencing inside a \<^verbatim>\<open>try\<close> block: the first statement that raises ends the block.
\<close>

definition bind_try ::
  "('w state \<Rightarrow> (exn + 'a) \<times> 'w state) \<Rightarrow> ('a \<Rightarrow> 'w state \<Rightarrow> (exn + 'b) \<times> 'w state)
    \<Rightarrow> 'w state \<Rightarrow> (exn + 'b) \<times> 'w state" where
  "bind_try m f st = (case m st of (Inl e, st1) \<Rightarrow> (Inl e, st1) | (Inr x, st1) \<Rightarrow> f x st1)"

definition pure_try :: "exn + 'a \<Rightarrow> 'w state \<Rightarrow> (exn + 'a) \<times> 'w state" where
  "pure_try r st = (r, st)"

text \<open>
  The source documents. \<^verbatim>\<open>glob.glob\<close> lists the paths of a pattern; \<^verbatim>\<open>fitz.open\<close>
  opens a document or raises; each page answers \<^verbatim>\<open>get_text("text")\<close> or raises, and so
  does \<^verbatim>\<open>doc.close()\<close>. The files do not change during a run.
\<close>

record pdf_doc =
  pages :: "(exn + string) list"
  close_raises :: "exn option"

record files =
  glob :: "string \<Rightarrow> string list"
  fitz_open :: "string \<Rightarrow> exn + pdf_doc"

section \<open>Embedding, extraction and ingestion (vector\_db.py)\<close>

text \<open>
  \<^verbatim>\<open>
  def embed_text(text):
      try:
          response = co.embed(texts=[text], model="embed-english-v3.0",
                              input_type="search_document")
          return response.embeddings[0]
      except Exception as e:
          print(f"Error generating embedding: {e}")
          raise
  \<close>
  \<^verbatim>\<open>embed_query\<close> is the same with \<^verbatim>\<open>input_type="search_query"\<close> and its own message.
\<close>

definition embed_text :: "'w services \<Rightarrow> string \<Rightarrow> 'w state \<Rightarrow> (exn + real list) \<times> 'w state" where
  "embed_text sv text st =
     (case bind_try (do_embed sv [text] ''embed-english-v3.0'' ''search_document'')
             (\<lambda>embeddings. pure_try (item0 embeddings)) st of
        (Inr embedding, st1) \<Rightarrow> (Inr embedding, st1)
      | (Inl e, st1) \<Rightarrow> (Inl e, print (''Error generating embedding: '' @ str e) st1))"

definition embed_query :: "'w services \<Rightarrow> string \<Rightarrow> 'w state \<Rightarrow> (exn + real list) \<times> 'w state" where
  "embed_query sv text st =
     (case bind_try (do_embed sv [text] ''embed-english-v3.0'' ''search_query'')
             (\<lambda>embeddings. pure_try (item0 embeddings)) st of
        (Inr embedding, st1) \<Rightarrow> (Inr embedding, st1)
      | (Inl e, st1) \<Rightarrow> (Inl e, print (''Error generating query embedding: '' @ str e) st1))"

text \<open>
  \<^verbatim>\<open>
  for page in doc:
      page_text = page.get_text("text")
      if page_text:
          text += page_text + "\n"
  \<close>
\<close>

fun read_pages :: "(exn + string) list \<Rightarrow> string \<Rightarrow> exn + string" where
  "read_pages [] text = Inr text"
| "read_pages (Inl e # ps) text = Inl e"
| "read_pages (Inr page_text # ps) text =
     read_pages ps (if page_text \<noteq> [] then text @ page_text @ [CHR 0x0A] else text)"

text \<open>The \<^verbatim>\<open>try\<close> block of \<^verbatim>\<open>extract_pdf_text\<close>: open, read the pages, close, strip.\<close>

definition read_pdf :: "files \<Rightarrow> string \<Rightarrow> exn + string" where
  "read_pdf fs file_path =
     (case fitz_open fs file_path of
        Inl e \<Rightarrow> Inl e
      | Inr doc \<Rightarrow>
          (case read_pages (pages doc) [] of
             Inl e \<Rightarrow> Inl e
           | Inr text \<Rightarrow>
               (case close_raises doc of
                  Some e \<Rightarrow> Inl e
                | None \<Rightarrow> Inr (strip text))))"

text \<open>
  \<^verbatim>\<open>
  except Exception as e:
      print(f"Error reading {file_path}: {e}")
      return ""
  \<close>
\<close>

definition extract_pdf_text :: "files \<Rightarrow> string \<Rightarrow> 'w state \<Rightarrow> string \<times> 'w state" where
  "extract_pdf_text fs file_path st =
     (case read_pdf fs file_path of
        Inr text \<Rightarrow> (text, st)
      | Inl e \<Rightarrow> ([], print (''Error reading '' @ file_path @ '': '' @ str e) st))"

text \<open>
  The vector dictionary of chunk \<open>idx\<close>:
  \<^verbatim>\<open>
  {"id": f"{os.path.splitext(filename)[0]}-chunk-{idx}",
   "values": embedding,
   "metadata": {"source": filename, "chunk_index": idx, "total_chunks": len(chunks),
                "content_preview": chunk[:300], "type": "policy",
                "char_count": len(chunk)}}
  \<close>
\<close>

definition make_vector :: "string \<Rightarrow> string list \<Rightarrow> nat \<Rightarrow> string \<Rightarrow> real list \<Rightarrow> vector_dict" where
  "make_vector filename chunks idx chunk embedding =
     \<lparr>vec_id = fst (splitext filename) @ ''-chunk-'' @ str_int (int idx),
      vec_values = embedding,
      vec_metadata =
        [(''source'', PyStr filename),
         (''chunk_index'', PyInt (int idx)),
         (''total_chunks'', PyInt (int (length chunks))),
         (''content_preview'', PyStr (take 300 chunk)),
         (''type'', PyStr ''policy''),
         (''char_count'', PyInt (int (length chunk)))]\<rparr>"

text \<open>
  \<^verbatim>\<open>
  for idx, chunk in enumerate(chunks):
      try:
          embedding = embed_text(chunk)
          policy_vectors.append({...})
      except Exception as e:
          print(f"  Error embedding chunk {idx} of {filename}: {e}")
          continue
  \<close>
  The loop runs over the rest of \<^verbatim>\<open>enumerate(chunks)\<close>.
\<close>

fun embed_chunks ::
  "'w services \<Rightarrow> string \<Rightarrow> string list \<Rightarrow> (nat \<times> string) list \<Rightarrow> vector_dict list \<Rightarrow> 'w state
    \<Rightarrow> vector_dict list \<times> 'w state" where
  "embed_chunks sv filename chunks [] policy_vectors st = (policy_vectors, st)"
| "embed_chunks sv filename chunks ((idx, chunk) # rest) policy_vectors st =
     (case embed_text sv chunk st of
        (Inr embedding, st1) \<Rightarrow>
          embed_chunks sv filename chunks rest
            (policy_vectors @ [make_vector filename chunks idx chunk embedding]) st1
      | (Inl e, st1) \<Rightarrow>
          embed_chunks sv filename chunks rest policy_vectors
            (print (''  Error embedding chunk '' @ str_int (int idx) @ '' of '' @ filename
                      @ '': '' @ str e) st1))"

definition enumerate_list :: "'a list \<Rightarrow> (nat \<times> 'a) list" where
  "enumerate_list xs = zip [0..<length xs] xs"

text \<open>
  The body of the loop over the files:
  \<^verbatim>\<open>
  for file_path in pdf_files:
      filename = os.path.basename(file_path)
      print(f"Processing: {filename}")
      text = extract_pdf_text(file_path)
      if not text:
          print(f"Skipping {filename} - no text extracted")
          continue
      chunks = chunk_text_by_tokens(text, max_tokens=max_chunk_tokens)
      print(f"  Created {len(chunks)} chunks")
      for idx, chunk in enumerate(chunks): ...
  \<close>
  The chunker is called with its default overlap of 200; where it does not return,
  neither does the loop. Every call of the body that can raise is inside a \<^verbatim>\<open>try\<close>
  block of \<^verbatim>\<open>extract_pdf_text\<close> or of the loop over the chunks; the tokenizer and
  \<^verbatim>\<open>glob.glob\<close> are taken not to raise. So the result has no exception.
\<close>

definition process_file ::
  "'w services \<Rightarrow> files \<Rightarrow> encoding \<Rightarrow> int \<Rightarrow> string \<Rightarrow> vector_dict list \<Rightarrow> 'w state
    \<Rightarrow> (vector_dict list \<times> 'w state) option" where
  "process_file sv fs enc max_chunk_tokens file_path policy_vectors st =
     (let filename = basename file_path;
          st1 = print (''Processing: '' @ filename) st
      in case extract_pdf_text fs file_path st1 of
           (text, st2) \<Rightarrow>
             if text = [] then
               Some (policy_vectors, print (''Skipping '' @ filename @ '' - no text extracted'') st2)
             else
               (case chunk_text_by_tokens enc text max_chunk_tokens 200 of
                  None \<Rightarrow> None
                | Some chunks \<Rightarrow>
                    Some (embed_chunks sv filename chunks (enumerate_list chunks) policy_vectors
                            (print (''  Created '' @ str_int (int (length chunks)) @ '' chunks'') st2))))"

fun process_files ::
  "'w services \<Rightarrow> files \<Rightarrow> encoding \<Rightarrow> int \<Rightarrow> string list \<Rightarrow> vector_dict list \<Rightarrow> 'w state
    \<Rightarrow> (vector_dict list \<times> 'w state) option" where
  "process_files sv fs enc max_chunk_tokens [] policy_vectors st = Some (policy_vectors, st)"
| "process_files sv fs enc max_chunk_tokens (file_path # rest) policy_vectors st =
     (case process_file sv fs enc max_chunk_tokens file_path policy_vectors st of
        None \<Rightarrow> None
      | Some (policy_vectors', st') \<Rightarrow>
          process_files sv fs enc max_chunk_tokens rest policy_vectors' st')"

text \<open>
  \<^verbatim>\<open>process_pdfs_to_vectors(pdf_pattern, max_chunk_tokens=6000)\<close>.
\<close>

definition process_pdfs_to_vectors ::
  "'w services \<Rightarrow> files \<Rightarrow> encoding \<Rightarrow> string \<Rightarrow> int \<Rightarrow> 'w state
    \<Rightarrow> (vector_dict list \<times> 'w state) option" where
  "process_pdfs_to_vectors sv fs enc pdf_pattern max_chunk_tokens st =
     (let pdf_files = glob fs pdf_pattern
      in if pdf_files = [] then
           Some ([], print (''No PDFs found matching pattern: '' @ pdf_pattern) st)
         else
           process_files sv fs enc max_chunk_tokens pdf_files []
             (print (''Found '' @ str_int (int (length pdf_files)) @ '' PDF files'') st))"

text \<open>
  \<^verbatim>\<open>
  def upsert_to_pinecone(index, vectors, batch_size=100):
      if not vectors:
          print("No vectors to upsert")
          return
      print(f"Upserting {len(vectors)} vectors in batches of {batch_size}")
      for i in range(0, len(vectors), batch_size):
          batch = vectors[i:i+batch_size]
          try:
              index.upsert(vectors=batch)
              print(f"  Upserted batch {i//batch_size + 1}/{(len(vectors)-1)//batch_size + 1}")
          except Exception as e:
              print(f"  Error upserting batch {i//batch_size + 1}: {e}")
      print(f"\<dots> Successfully inserted {len(vectors)} policy chunks")
  \<close>
  The function returns \<^verbatim>\<open>None\<close> on every path: its result is \<open>Inr ()\<close>, or the
  \<^verbatim>\<open>ValueError\<close> that \<^verbatim>\<open>range\<close> raises for a zero batch size.
\<close>

definition batch_number :: "int \<Rightarrow> int \<Rightarrow> string" where
  "batch_number i batch_size = str_int (i div batch_size + 1)"

fun upsert_batches ::
  "'w services \<Rightarrow> vector_dict list \<Rightarrow> int \<Rightarrow> int list \<Rightarrow> 'w state \<Rightarrow> 'w state" where
  "upsert_batches sv vectors batch_size [] st = st"
| "upsert_batches sv vectors batch_size (i # rest) st =
     (let batch = py_slice vectors i (i + batch_size)
      in case do_upsert sv batch st of
           (Inr _, st1) \<Rightarrow>
             upsert_batches sv vectors batch_size rest
               (print (''  Upserted batch '' @ batch_number i batch_size @ ''/''
                         @ str_int ((int (length vectors) - 1) div batch_size + 1)) st1)
         | (Inl e, st1) \<Rightarrow>
             upsert_batches sv vectors batch_size rest
               (print (''  Error upserting batch '' @ batch_number i batch_size @ '': '' @ str e) st1))"

text \<open>The check mark that starts the last line, as its three bytes in UTF-8.\<close>

definition check_mark :: string where
  "check_mark = [CHR 0xE2, CHR 0x9C, CHR 0x93]"

definition upsert_to_pinecone ::
  "'w services \<Rightarrow> vector_dict list \<Rightarrow> int \<Rightarrow> 'w state \<Rightarrow> (exn + unit) \<times> 'w state" where
  "upsert_to_pinecone sv vectors batch_size st =
     (if vectors = [] then (Inr (), print ''No vectors to upsert'' st)
      else
        (let st1 = print (''Upserting '' @ str_int (int (length vectors)) @ '' vectors in batches of ''
                            @ str_int batch_size) st
         in case py_range 0 (int (length vectors)) batch_size of
              Inl e \<Rightarrow> (Inl e, st1)
            | Inr starts \<Rightarrow>
                (Inr (),
                 print (check_mark @ '' Successfully inserted '' @ str_int (int (length vectors))
                          @ '' policy chunks'')
                   (upsert_batches sv vectors batch_size starts st1))))"

text \<open>
  \<^verbatim>\<open>
  def search_policies(index, query, top_k=5):
      try:
          query_embedding = embed_query(query)
          results = index.query(vector=query_embedding, top_k=top_k, include_metadata=True)
          return results.matches
      except Exception as e:
          print(f"Error searching: {e}")
          return []
  \<close>
\<close>

definition search_policies ::
  "'w services \<Rightarrow> string \<Rightarrow> int \<Rightarrow> 'w state \<Rightarrow> pinecone_match list \<times> 'w state" where
  "search_policies sv query top_k st =
     (case bind_try (embed_query sv query)
             (\<lambda>query_embedding. do_query sv query_embedding top_k True) st of
        (Inr matches, st1) \<Rightarrow> (matches, st1)
      | (Inl e, st1) \<Rightarrow> ([], print (''Error searching: '' @ str e) st1))"

section \<open>Reading the result of an ingestion\<close>

text \<open>The embedding call that the ingestion issues for a chunk.\<close>

definition doc_call :: "string \<Rightarrow> net_call" where
  "doc_call chunk = EmbedCall [chunk] ''embed-english-v3.0'' ''search_document''"

text \<open>
  The chunks that the chunker produces for the document at a path: none for a document
  that is skipped, \<open>None\<close> where the chunker does not return.
\<close>

definition document_chunks :: "files \<Rightarrow> encoding \<Rightarrow> int \<Rightarrow> string \<Rightarrow> string list option" where
  "document_chunks fs enc max_chunk_tokens file_path =
     (case read_pdf fs file_path of
        Inl e \<Rightarrow> Some []
      | Inr text \<Rightarrow> if text = [] then Some [] else chunk_text_by_tokens enc text max_chunk_tokens 200)"

text \<open>
  The ids of all chunks of the documents at some paths, in order: they depend on the
  documents and the chunking parameter only.
\<close>

definition document_ids :: "files \<Rightarrow> encoding \<Rightarrow> int \<Rightarrow> string \<Rightarrow> string list" where
  "document_ids fs enc max_chunk_tokens file_path =
     (case document_chunks fs enc max_chunk_tokens file_path of
        None \<Rightarrow> []
      | Some chunks \<Rightarrow>
          map (\<lambda>idx. fst (splitext (basename file_path)) @ ''-chunk-'' @ str_int (int idx))
            [0..<length chunks])"

definition expected_ids :: "files \<Rightarrow> encoding \<Rightarrow> int \<Rightarrow> string list \<Rightarrow> string list" where
  "expected_ids fs enc max_chunk_tokens paths =
     concat (map (document_ids fs enc max_chunk_tokens) paths)"

text \<open>The metadata fields of a vector dictionary.\<close>

definition meta_str :: "vector_dict \<Rightarrow> string \<Rightarrow> string" where
  "meta_str r k = (case map_of (vec_metadata r) k of Some (PyStr s) \<Rightarrow> s | _ \<Rightarrow> [])"

definition meta_int :: "vector_dict \<Rightarrow> string \<Rightarrow> int" where
  "meta_int r k = (case map_of (vec_metadata r) k of Some (PyInt i) \<Rightarrow> i | _ \<Rightarrow> 0)"

section \<open>Reading the result of an upsert\<close>

text \<open>
  The batches \<^verbatim>\<open>vectors[i:i+batch_size]\<close> for \<open>i = 0, batch_size, 2 batch_size, \<dots>\<close>
  below \<^verbatim>\<open>len(vectors)\<close>.
\<close>

definition batches_of :: "'a list \<Rightarrow> nat \<Rightarrow> 'a list list" where
  "batches_of xs b = map (\<lambda>k. take b (drop (k * b) xs)) [0..<(length xs + b - 1) div b]"

text \<open>What the index answers to a sequence of upserts, from a state of the outside world.\<close>

fun upsert_outcomes :: "'w services \<Rightarrow> vector_dict list list \<Rightarrow> 'w \<Rightarrow> (exn + unit) list" where
  "upsert_outcomes sv [] w = []"
| "upsert_outcomes sv (b # bs) w =
     (case index_upsert sv b w of (r, w') \<Rightarrow> r # upsert_outcomes sv bs w')"

text \<open>The line printed for batch \<open>k\<close> (counted from 0) of \<open>n\<close> batches, by its outcome.\<close>

definition batch_line :: "nat \<Rightarrow> nat \<Rightarrow> exn + unit \<Rightarrow> string" where
  "batch_line n k r =
     (case r of
        Inr _ \<Rightarrow> ''  Upserted batch '' @ str_int (int k + 1) @ ''/'' @ str_int (int n)
      | Inl e \<Rightarrow> ''  Error upserting batch '' @ str_int (int k + 1) @ '': '' @ str e)"

text \<open>The number of chunks of the document at a path.\<close>

definition chunk_total :: "files \<Rightarrow> encoding \<Rightarrow> int \<Rightarrow> string \<Rightarrow> nat" where
  "chunk_total fs enc max_chunk_tokens file_path =
     (case document_chunks fs enc max_chunk_tokens file_path of None \<Rightarrow> 0 | Some chunks \<Rightarrow> length chunks)"

text \<open>
  A vector dictionary is the record of chunk \<open>idx\<close> of the document at a path: its
  metadata name the document and the chunk, and its id is built from the file name
  without extension and \<open>idx\<close>.
\<close>

definition record_of_chunk :: "files \<Rightarrow> encoding \<Rightarrow> int \<Rightarrow> string \<Rightarrow> vector_dict \<Rightarrow> bool" where
  "record_of_chunk fs enc max_chunk_tokens file_path r =
     (case document_chunks fs enc max_chunk_tokens file_path of
        None \<Rightarrow> False
      | Some chunks \<Rightarrow>
          meta_str r ''source'' = basename file_path
          \<and> 0 \<le> meta_int r ''chunk_index''
          \<and> meta_int r ''chunk_index'' < int (length chunks)
          \<and> meta_int r ''total_chunks'' = int (length chunks)
          \<and> meta_str r ''content_preview'' = take 300 (chunks ! nat (meta_int r ''chunk_index''))
          \<and> vec_id r = fst (splitext (basename file_path)) @ ''-chunk-''
               @ str_int (meta_int r ''chunk_index''))"

text \<open>The chunks of the documents at some paths, in order.\<close>

definition all_chunks :: "files \<Rightarrow> encoding \<Rightarrow> int \<Rightarrow> string list \<Rightarrow> string list" where
  "all_chunks fs enc max_chunk_tokens paths =
     concat (map (\<lambda>p. case document_chunks fs enc max_chunk_tokens p of None \<Rightarrow> [] | Some cs \<Rightarrow> cs) paths)"


text \<open>The same line by the start index \<open>i\<close> of the batch, as the loop prints it.\<close>

definition upsert_line :: "vector_dict list \<Rightarrow> int \<Rightarrow> int \<Rightarrow> exn + unit \<Rightarrow> string" where
  "upsert_line vectors batch_size i r =
     (case r of
        Inr _ \<Rightarrow> ''  Upserted batch '' @ batch_number i batch_size @ ''/''
                  @ str_int ((int (length vectors) - 1) div batch_size + 1)
      | Inl e \<Rightarrow> ''  Error upserting batch '' @ batch_number i batch_size @ '': '' @ str e)"

text \<open>The lines printed for the batches of some vectors, from a state of the outside world.\<close>

definition upsert_report :: "'w services \<Rightarrow> vector_dict list \<Rightarrow> nat \<Rightarrow> 'w \<Rightarrow> string list" where
  "upsert_report sv vectors b w =
     map (\<lambda>(k, r). batch_line (length (batches_of vectors b)) k r)
       (zip [0..<length (batches_of vectors b)] (upsert_outcomes sv (batches_of vectors b) w))"

section \<open>Retrieval through the direct call (search\_helper.py)\<close>

text \<open>
  \<^verbatim>\<open>
  for match in results.matches:
      formatted_results.append({
          "score": match.score,
          "source": match.metadata.get('source', 'Unknown'),
          "content_preview": match.metadata.get('content_preview', '')[:300]})
  \<close>
\<close>

fun helper_format :: "pinecone_match list \<Rightarrow> py_value list \<Rightarrow> exn + py_value list" where
  "helper_format [] formatted_results = Inr formatted_results"
| "helper_format (m # ms) formatted_results =
     (case slice_to (dict_get (metadata m) ''content_preview'' (PyStr [])) 300 of
        Inl e \<Rightarrow> Inl e
      | Inr preview \<Rightarrow>
          helper_format ms
            (formatted_results @
               [PyDict [(''score'', PyFloat (score m)),
                        (''source'', dict_get (metadata m) ''source'' (PyStr ''Unknown'')),
                        (''content_preview'', preview)]]))"

text \<open>
  \<^verbatim>\<open>
  def search_faq(query, top_k=3):
      try:
          response = co.embed(texts=[query], model="embed-english-v3.0",
                              input_type="search_query")
          query_embedding = response.embeddings[0]
          results = index.query(vector=query_embedding, top_k=top_k, include_metadata=True)
          formatted_results = []
          for match in results.matches: ...
          return formatted_results
      except Exception as e:
          return [{"error": str(e)}]
  \<close>
\<close>

definition search_helper_try ::
  "'w services \<Rightarrow> string \<Rightarrow> int \<Rightarrow> 'w state \<Rightarrow> (exn + py_value list) \<times> 'w state" where
  "search_helper_try sv query top_k =
     bind_try (do_embed sv [query] ''embed-english-v3.0'' ''search_query'') (\<lambda>embeddings.
     bind_try (pure_try (item0 embeddings)) (\<lambda>query_embedding.
     bind_try (do_query sv query_embedding top_k True) (\<lambda>matches.
     pure_try (helper_format matches []))))"

definition search_helper_search_faq ::
  "'w services \<Rightarrow> string \<Rightarrow> int \<Rightarrow> 'w state \<Rightarrow> py_value list \<times> 'w state" where
  "search_helper_search_faq sv query top_k st =
     (case search_helper_try sv query top_k st of
        (Inr formatted_results, st1) \<Rightarrow> (formatted_results, st1)
      | (Inl e, st1) \<Rightarrow> ([PyDict [(''error'', PyStr (str e))]], st1))"

section \<open>Retrieval over HTTP (api\_server.py, api\_vercel.py)\<close>

text \<open>
  A handler either returns its response or raises \<^verbatim>\<open>HTTPException(status_code, detail)\<close>.
\<close>

datatype http_exception = HTTPException (status_code: int) (detail: string)

text \<open>
  The request body of api\_server.py, \<^verbatim>\<open>SearchQuery(query: str, top_k: int = 3)\<close>.
  \<^verbatim>\<open>
  for match in results.matches:
      formatted_results.append(SearchResult(
          score=round(match.score, 4),
          source=match.metadata.get('source', 'Unknown'),
          content=match.metadata.get('content_preview', '')))
  \<close>
\<close>

datatype SearchQuery = SearchQuery string int

fun server_format :: "pylib \<Rightarrow> pinecone_match list \<Rightarrow> SearchResult list \<Rightarrow> exn + SearchResult list" where
  "server_format lib [] formatted_results = Inr formatted_results"
| "server_format lib (m # ms) formatted_results =
     (case new_SearchResult lib (py_round lib (score m) 4)
             (dict_get (metadata m) ''source'' (PyStr ''Unknown''))
             (dict_get (metadata m) ''content_preview'' (PyStr [])) of
        Inl e \<Rightarrow> Inl e
      | Inr r \<Rightarrow> server_format lib ms (formatted_results @ [r]))"

text \<open>
  \<^verbatim>\<open>
  async def search_faq(search_query: SearchQuery):
      try:
          response = co.embed(texts=[search_query.query], model="embed-english-v3.0",
                              input_type="search_query")
          query_embedding = response.embeddings[0]
          results = index.query(vector=query_embedding, top_k=search_query.top_k,
                                include_metadata=True)
          ...
          return formatted_results
      except Exception as e:
          raise HTTPException(status_code=500, detail=str(e))
  \<close>
\<close>

fun api_server_try ::
  "'w services \<Rightarrow> pylib \<Rightarrow> SearchQuery \<Rightarrow> 'w state \<Rightarrow> (exn + SearchResult list) \<times> 'w state" where
  "api_server_try sv lib (SearchQuery query top_k) =
     bind_try (do_embed sv [query] ''embed-english-v3.0'' ''search_query'') (\<lambda>embeddings.
     bind_try (pure_try (item0 embeddings)) (\<lambda>query_embedding.
     bind_try (do_query sv query_embedding top_k True) (\<lambda>matches.
     pure_try (server_format lib matches []))))"

definition api_server_search_faq ::
  "'w services \<Rightarrow> pylib \<Rightarrow> SearchQuery \<Rightarrow> 'w state \<Rightarrow> (http_exception + SearchResult list) \<times> 'w state" where
  "api_server_search_faq sv lib search_query st =
     (case api_server_try sv lib search_query st of
        (Inr formatted_results, st1) \<Rightarrow> (Inr formatted_results, st1)
      | (Inl e, st1) \<Rightarrow> (Inl (HTTPException 500 (str e)), st1))"

text \<open>
  api\_vercel.py: the request body has the query only, \<^verbatim>\<open>top_k\<close> is the constant 3.
  \<^verbatim>\<open>float(match.score)\<close> is the score itself.
  \<^verbatim>\<open>
  for match in results.matches:
      formatted.append({
          "score": float(match.score),
          "source": match.metadata.get('source', 'Unknown'),
          "preview": match.metadata.get('content_preview', '')[:300]})
  return {"success": True,
          "results": formatted if formatted else [],
          "message": "No results found." if not formatted else f"Found {len(formatted)} results."}
  \<close>
\<close>

fun vercel_format :: "pinecone_match list \<Rightarrow> py_value list \<Rightarrow> exn + py_value list" where
  "vercel_format [] formatted = Inr formatted"
| "vercel_format (m # ms) formatted =
     (case slice_to (dict_get (metadata m) ''content_preview'' (PyStr [])) 300 of
        Inl e \<Rightarrow> Inl e
      | Inr preview \<Rightarrow>
          vercel_format ms
            (formatted @
               [PyDict [(''score'', PyFloat (score m)),
                        (''source'', dict_get (metadata m) ''source'' (PyStr ''Unknown'')),
                        (''preview'', preview)]]))"

definition vercel_response :: "py_value list \<Rightarrow> py_value" where
  "vercel_response formatted =
     PyDict [(''success'', PyBool True),
             (''results'', PyList (if formatted \<noteq> [] then formatted else [])),
             (''message'', PyStr (if formatted = [] then ''No results found.''
                else ''Found '' @ str_int (int (length formatted)) @ '' results.''))]"

definition api_vercel_try ::
  "'w services \<Rightarrow> string \<Rightarrow> 'w state \<Rightarrow> (exn + py_value) \<times> 'w state" where
  "api_vercel_try sv query =
     bind_try (do_embed sv [query] ''embed-english-v3.0'' ''search_query'') (\<lambda>embeddings.
     bind_try (pure_try (item0 embeddings)) (\<lambda>query_embedding.
     bind_try (do_query sv query_embedding 3 True) (\<lambda>matches.
     bind_try (pure_try (vercel_format matches [])) (\<lambda>formatted.
     pure_try (Inr (vercel_response formatted))))))"

text \<open>
  \<^verbatim>\<open>
  async def search_faq(query: SearchQuery):
      if not query.query:
          raise HTTPException(status_code=400, detail="Missing 'query' parameter")
      try:
          ...
      except Exception as e:
          raise HTTPException(status_code=500, detail=f"Error: {str(e)}")
  \<close>
\<close>

definition missing_query :: string where
  "missing_query = ''Missing '' @ [CHR 0x27] @ ''query'' @ [CHR 0x27] @ '' parameter''"

definition api_vercel_search_faq ::
  "'w services \<Rightarrow> string \<Rightarrow> 'w state \<Rightarrow> (http_exception + py_value) \<times> 'w state" where
  "api_vercel_search_faq sv query st =
     (if query = [] then (Inl (HTTPException 400 missing_query), st)
      else
        (case api_vercel_try sv query st of
           (Inr response, st1) \<Rightarrow> (Inr response, st1)
         | (Inl e, st1) \<Rightarrow> (Inl (HTTPException 500 (''Error: '' @ str e)), st1)))"

section \<open>Retrieval as a tool (openai\_agent.py, faq.py, faq2.py)\<close>

text \<open>
  openai\_agent.py formats as api\_server.py does, into dictionaries, and returns
  \<^verbatim>\<open>json.dumps(formatted_results, indent=2)\<close>, or \<^verbatim>\<open>json.dumps({"error": str(e)})\<close>
  from its handler.
\<close>

fun agent_format :: "pylib \<Rightarrow> pinecone_match list \<Rightarrow> py_value list \<Rightarrow> py_value list" where
  "agent_format lib [] formatted_results = formatted_results"
| "agent_format lib (m # ms) formatted_results =
     agent_format lib ms
       (formatted_results @
          [PyDict [(''score'', PyFloat (py_round lib (score m) 4)),
                   (''source'', dict_get (metadata m) ''source'' (PyStr ''Unknown'')),
                   (''content'', dict_get (metadata m) ''content_preview'' (PyStr []))]])"

definition openai_agent_try ::
  "'w services \<Rightarrow> pylib \<Rightarrow> string \<Rightarrow> int \<Rightarrow> 'w state \<Rightarrow> (exn + string) \<times> 'w state" where
  "openai_agent_try sv lib query top_k =
     bind_try (do_embed sv [query] ''embed-english-v3.0'' ''search_query'') (\<lambda>embeddings.
     bind_try (pure_try (item0 embeddings)) (\<lambda>query_embedding.
     bind_try (do_query sv query_embedding top_k True) (\<lambda>matches.
     pure_try (Inr (json_dumps lib (PyList (agent_format lib matches [])) (Some 2))))))"

definition openai_agent_search_faq ::
  "'w services \<Rightarrow> pylib \<Rightarrow> string \<Rightarrow> int \<Rightarrow> 'w state \<Rightarrow> string \<times> 'w state" where
  "openai_agent_search_faq sv lib query top_k st =
     (case openai_agent_try sv lib query top_k st of
        (Inr dumped, st1) \<Rightarrow> (dumped, st1)
      | (Inl e, st1) \<Rightarrow> (json_dumps lib (PyDict [(''error'', PyStr (str e))]) None, st1))"

text \<open>
  The tool handlers of faq.py and faq2.py are the same code:
  \<^verbatim>\<open>
  async def call_tool(name, arguments):
      if name != "search_faq":
          raise ValueError(f"Unknown tool: {name}")
      query = arguments.get("query", "")
      if not query:
          return [TextContent(type="text", text="Error: Missing 'query' parameter")]
      try:
          ... co.embed(texts=[query], ..., input_type="search_query") ...
          ... index.query(vector=query_embedding, top_k=3, include_metadata=True) ...
          for match in results.matches:
              formatted_results.append(
                  f"Score: {match.score:.4f}\n"
                  f"Source: {match.metadata.get('source', 'Unknown')}\n"
                  f"Preview: {match.metadata.get('content_preview', '')[:300]}\n")
          return [TextContent(type="text",
              text="\n---\n".join(formatted_results) if formatted_results else "No results found.")]
      except Exception as e:
          return [TextContent(type="text", text=f"Error: {str(e)}")]
  \<close>
  The arguments map names to strings, as the tool's input schema says.
\<close>

datatype text_content = TextContent string string

fun tool_format :: "pylib \<Rightarrow> pinecone_match list \<Rightarrow> string list \<Rightarrow> exn + string list" where
  "tool_format lib [] formatted_results = Inr formatted_results"
| "tool_format lib (m # ms) formatted_results =
     (case slice_to (dict_get (metadata m) ''content_preview'' (PyStr [])) 300 of
        Inl e \<Rightarrow> Inl e
      | Inr preview \<Rightarrow>
          tool_format lib ms
            (formatted_results @
               [''Score: '' @ format_4f lib (score m) @ [CHR 0x0A]
                @ ''Source: '' @ format_value lib (dict_get (metadata m) ''source'' (PyStr ''Unknown''))
                @ [CHR 0x0A]
                @ ''Preview: '' @ format_value lib preview @ [CHR 0x0A]]))"

definition call_tool_try ::
  "'w services \<Rightarrow> pylib \<Rightarrow> string \<Rightarrow> 'w state \<Rightarrow> (exn + text_content list) \<times> 'w state" where
  "call_tool_try sv lib query =
     bind_try (do_embed sv [query] ''embed-english-v3.0'' ''search_query'') (\<lambda>embeddings.
     bind_try (pure_try (item0 embeddings)) (\<lambda>query_embedding.
     bind_try (do_query sv query_embedding 3 True) (\<lambda>matches.
     bind_try (pure_try (tool_format lib matches [])) (\<lambda>formatted_results.
     pure_try (Inr [TextContent ''text''
        (if formatted_results \<noteq> [] then join ([CHR 0x0A] @ ''---'' @ [CHR 0x0A]) formatted_results
         else ''No results found.'')])))))"

definition call_tool ::
  "'w services \<Rightarrow> pylib \<Rightarrow> string \<Rightarrow> (string \<times> string) list \<Rightarrow> 'w state
    \<Rightarrow> (exn + text_content list) \<times> 'w state" where
  "call_tool sv lib name arguments st =
     (if name \<noteq> ''search_faq'' then (Inl (Exception (''Unknown tool: '' @ name)), st)
      else
        (let query = (case map_of arguments ''query'' of None \<Rightarrow> [] | Some q \<Rightarrow> q)
         in if query = [] then
              (Inr [TextContent ''text'' (''Error: '' @ missing_query)], st)
            else
              (case call_tool_try sv lib query st of
                 (Inr content, st1) \<Rightarrow> (Inr content, st1)
               | (Inl e, st1) \<Rightarrow> (Inr [TextContent ''text'' (''Error: '' @ str e)], st1))))"

definition faq_call_tool ::
  "'w services \<Rightarrow> pylib \<Rightarrow> string \<Rightarrow> (string \<times> string) list \<Rightarrow> 'w state
    \<Rightarrow> (exn + text_content list) \<times> 'w state" where
  "faq_call_tool = call_tool"

definition faq2_call_tool ::
  "'w services \<Rightarrow> pylib \<Rightarrow> string \<Rightarrow> (string \<times> string) list \<Rightarrow> 'w state
    \<Rightarrow> (exn + text_content list) \<times> 'w state" where
  "faq2_call_tool = call_tool"

section \<open>Reading the trace of a run\<close>

text \<open>The network calls issued between two states, and the intents of the embedding calls among them.\<close>

definition new_calls :: "'w state \<Rightarrow> 'w state \<Rightarrow> net_call list" where
  "new_calls st st' = drop (length (calls st)) (calls st')"

fun embed_intents :: "net_call list \<Rightarrow> string list" where
  "embed_intents [] = []"
| "embed_intents (EmbedCall txts mdl intent # cs) = intent # embed_intents cs"
| "embed_intents (c # cs) = embed_intents cs"

text \<open>
  The two shapes of a result of the direct call: the one-element list with the error
  dictionary, and a list of result dictionaries with the keys \<^verbatim>\<open>score\<close>, \<^verbatim>\<open>source\<close> and
  \<^verbatim>\<open>content_preview\<close>.
\<close>

definition error_list :: "string \<Rightarrow> py_value list" where
  "error_list s = [PyDict [(''error'', PyStr s)]]"

definition is_result_dict :: "py_value \<Rightarrow> bool" where
  "is_result_dict r =
     (case r of PyDict d \<Rightarrow> map fst d = [''score'', ''source'', ''content_preview''] | _ \<Rightarrow> False)"

definition has_error_key :: "py_value \<Rightarrow> bool" where
  "has_error_key r = (case r of PyDict d \<Rightarrow> has_key d ''error'' | _ \<Rightarrow> False)"

section \<open>Example services, files and library for closed instances\<close>

definition init_state :: "'w \<Rightarrow> 'w state" where
  "init_state w = \<lparr>ext = w, calls = [], out = []\<rparr>"

definition example_match :: pinecone_match where
  "example_match =
     \<lparr>score = 1,
      metadata = [(''source'', PyStr ''refund.pdf''),
                  (''content_preview'', PyStr ''Refunds are processed within 14 days.'')]\<rparr>"

text \<open>Services that always answer, and services that always raise.\<close>

definition up_services :: "unit services" where
  "up_services =
     \<lparr>co_embed = (\<lambda>txts mdl intent w. (Inr (map (\<lambda>t. [1, 0]) txts), w)),
      index_query = (\<lambda>v k incl w. (Inr [example_match], w)),
      index_upsert = (\<lambda>vs w. (Inr (), w))\<rparr>"

definition down_services :: "unit services" where
  "down_services =
     \<lparr>co_embed = (\<lambda>txts mdl intent w. (Inl (Exception ''embedding service unavailable''), w)),
      index_query = (\<lambda>v k incl w. (Inl (Exception ''index unavailable''), w)),
      index_upsert = (\<lambda>vs w. (Inl (Exception ''index unavailable''), w))\<rparr>"

text \<open>
  Services whose state counts the calls received: every second embedding call and every
  second upsert raises.
\<close>

definition flaky_services :: "nat services" where
  "flaky_services =
     \<lparr>co_embed = (\<lambda>txts mdl intent w.
        (if even w then Inr (map (\<lambda>t. [1, 0]) txts) else Inl (Exception ''rate limited''), Suc w)),
      index_query = (\<lambda>v k incl w. (Inr [example_match], Suc w)),
      index_upsert = (\<lambda>vs w. (if even w then Inr () else Inl (Exception ''timeout''), Suc w))\<rparr>"

text \<open>Three documents under one pattern; the second cannot be opened.\<close>

definition example_files :: files where
  "example_files =
     \<lparr>glob = (\<lambda>pattern. if pattern = ''policies/*.pdf''
         then [''policies/refund.pdf'', ''policies/broken.pdf'', ''policies/delivery.pdf'']
         else []),
      fitz_open = (\<lambda>path.
         if path = ''policies/refund.pdf''
           then Inr \<lparr>pages = [Inr ''Refunds are processed within 14 days.''], close_raises = None\<rparr>
         else if path = ''policies/delivery.pdf''
           then Inr \<lparr>pages = [Inr ''Delivery takes 3 days.'', Inr ''''], close_raises = None\<rparr>
         else Inl (Exception ''cannot open broken document''))\<rparr>"

definition example_lib :: pylib where
  "example_lib =
     \<lparr>py_round = (\<lambda>x n. x),
      format_4f = (\<lambda>x. ''1.0000''),
      format_value = (\<lambda>v. case v of PyStr s \<Rightarrow> s | _ \<Rightarrow> ''?''),
      json_dumps = (\<lambda>v indent. ''[]''),
      new_SearchResult = (\<lambda>sc so co. case (so, co) of
         (PyStr s, PyStr c) \<Rightarrow> Inr \<lparr>result_score = sc, result_source = s, result_content = c\<rparr>
       | _ \<Rightarrow> Inl (Exception ''validation error''))\<rparr>"

text \<open>Services whose embedding answers and whose index raises.\<close>

definition index_down_services :: "unit services" where
  "index_down_services =
     \<lparr>co_embed = (\<lambda>txts mdl intent w. (Inr (map (\<lambda>t. [1, 0]) txts), w)),
      index_query = (\<lambda>v k incl w. (Inl (Exception ''index unavailable''), w)),
      index_upsert = (\<lambda>vs w. (Inl (Exception ''index unavailable''), w))\<rparr>"

text \<open>Three vectors to upsert.\<close>

definition example_vectors :: "vector_dict list" where
  "example_vectors =
     [make_vector ''refund.pdf'' [''Refunds'', ''are'', ''processed''] 0 ''Refunds'' [1, 0],
      make_vector ''refund.pdf'' [''Refunds'', ''are'', ''processed''] 1 ''are'' [0, 1],
      make_vector ''refund.pdf'' [''Refunds'', ''are'', ''processed''] 2 ''processed'' [1, 1]]"

section \<open>Properties of the chunker\<close>

subsection \<open>The loop in closed form\<close>

text \<open>
  With a positive step \<open>max_tokens - overlap\<close> the loop runs once for each start offset
  \<open>start + k (max_tokens - overlap)\<close> below the token count, which is
  \<open>ceil((n - start) / (max_tokens - overlap))\<close> times. The proof is by induction on the
  distance of \<open>start\<close> from the token count.
\<close>

lemma ceil_quot_step:
  fixes a b :: int
  assumes "0 < b" "0 < a"
  shows "nat \<lceil>real_of_int a / real_of_int b\<rceil> = Suc (nat \<lceil>real_of_int (a - b) / real_of_int b\<rceil>)"
proof -
  have eq: "real_of_int (a - b) / real_of_int b = real_of_int a / real_of_int b - 1"
    using assms by (simp add: field_simps)
  have pos: "0 < real_of_int a / real_of_int b"
    using assms by simp
  then have "1 \<le> \<lceil>real_of_int a / real_of_int b\<rceil>"
    by (simp add: ceiling_le_iff less_ceiling_iff)
  have "\<lceil>real_of_int (a - b) / real_of_int b\<rceil> = \<lceil>real_of_int a / real_of_int b\<rceil> - 1"
    unfolding eq by (rule ceiling_diff_one)
  with \<open>1 \<le> \<lceil>real_of_int a / real_of_int b\<rceil>\<close> show ?thesis
    by linarith
qed

lemma ceil_quot_nonpos:
  fixes a b :: int
  assumes "0 < b" "a \<le> 0"
  shows "nat \<lceil>real_of_int a / real_of_int b\<rceil> = 0"
proof -
  have "real_of_int a / real_of_int b \<le> 0"
    using assms by (simp add: divide_le_0_iff)
  then show ?thesis
    by (simp add: ceiling_le_iff)
qed

lemma window_loop_closed:
  assumes "overlap < max_tokens"
  shows "window_loop n max_tokens overlap start ws =
         Some (ws @ map (nth_bounds n max_tokens overlap start)
           [0..<nat \<lceil>real_of_int (int n - start) / real_of_int (max_tokens - overlap)\<rceil>])"
proof (induction "nat (int n - start)" arbitrary: start ws rule: less_induct)
  case less
  let ?s = "max_tokens - overlap"
  have s: "0 < ?s" using assms by simp
  show ?case
  proof (cases "start < int n")
    case False
    then have "nat \<lceil>real_of_int (int n - start) / real_of_int ?s\<rceil> = 0"
      using s by (intro ceil_quot_nonpos) auto
    with False show ?thesis
      by (subst window_loop.simps) simp
  next
    case True
    then have lt: "nat (int n - (start + ?s)) < nat (int n - start)"
      using s by linarith
    have cnt: "nat \<lceil>real_of_int (int n - start) / real_of_int ?s\<rceil>
        = Suc (nat \<lceil>real_of_int (int n - (start + ?s)) / real_of_int ?s\<rceil>)"
      using ceil_quot_step [of ?s "int n - start"] s True
      by (simp add: algebra_simps)
    have shift: "nth_bounds n max_tokens overlap (start + ?s) k
        = nth_bounds n max_tokens overlap start (Suc k)" for k
      by (simp add: nth_bounds_def algebra_simps)
    have first: "py_slice_bounds n start (start + max_tokens) = nth_bounds n max_tokens overlap start 0"
      by (simp add: nth_bounds_def)
    have "window_loop n max_tokens overlap start ws =
        window_loop n max_tokens overlap (start + ?s)
          (ws @ [py_slice_bounds n start (start + max_tokens)])"
      using True by (subst window_loop.simps) simp
    also have "\<dots> = Some ((ws @ [py_slice_bounds n start (start + max_tokens)])
        @ map (nth_bounds n max_tokens overlap (start + ?s))
           [0..<nat \<lceil>real_of_int (int n - (start + ?s)) / real_of_int ?s\<rceil>])"
      by (rule less.hyps [OF lt])
    also have "\<dots> = Some (ws @ map (nth_bounds n max_tokens overlap start)
           [0..<nat \<lceil>real_of_int (int n - start) / real_of_int ?s\<rceil>])"
      unfolding cnt first shift
      by (simp add: upt_rec [of 0 "Suc _"] map_Suc_upt [symmetric] del: upt_Suc)
    finally show ?thesis .
  qed
qed

text \<open>The chunks are the decoded windows.\<close>

lemma chunk_loop_windows:
  assumes "overlap < max_tokens"
  shows "chunk_loop enc tokens max_tokens overlap start chunks =
         map_option (\<lambda>ws. chunks @ map (\<lambda>w. decode enc (slice_of tokens w)) ws)
           (window_loop (length tokens) max_tokens overlap start [])"
proof (induction "nat (int (length tokens) - start)" arbitrary: start chunks rule: less_induct)
  case less
  let ?s = "max_tokens - overlap"
  let ?f = "\<lambda>w. decode enc (slice_of tokens w)"
  have s: "0 < ?s" using assms by simp
  show ?case
  proof (cases "start < int (length tokens)")
    case False
    then show ?thesis
      by (subst chunk_loop.simps, subst window_loop.simps) simp
  next
    case True
    then have lt: "nat (int (length tokens) - (start + ?s)) < nat (int (length tokens) - start)"
      using s by linarith
    let ?w = "py_slice_bounds (length tokens) start (start + max_tokens)"
    have "chunk_loop enc tokens max_tokens overlap start chunks =
        chunk_loop enc tokens max_tokens overlap (start + ?s) (chunks @ [?f ?w])"
      using True by (subst chunk_loop.simps) (simp add: py_slice_def)
    also have "\<dots> = map_option (\<lambda>ws. (chunks @ [?f ?w]) @ map ?f ws)
        (window_loop (length tokens) max_tokens overlap (start + ?s) [])"
      by (rule less.hyps [OF lt])
    also have "\<dots> = map_option (\<lambda>ws. chunks @ map ?f ws)
        (window_loop (length tokens) max_tokens overlap start [])"
      using True
      by (subst (2) window_loop.simps)
         (simp add: window_loop_closed [OF assms])
    finally show ?thesis .
  qed
qed

text \<open>
  With a step that is not positive the start offset never passes the token count: if the
  loop returned, the guard would have failed at some start offset no larger than the
  first one.
\<close>

lemma chunk_loop_diverges:
  assumes "max_tokens \<le> overlap" and "start < int (length tokens)"
  shows "chunk_loop enc tokens max_tokens overlap start chunks = None"
proof (cases "chunk_loop enc tokens max_tokens overlap start chunks")
  case None
  then show ?thesis .
next
  case (Some r)
  have "\<not> (max_tokens \<le> overlap \<and> start < int (length tokens))"
  proof (rule chunk_loop.raw_induct
      [where P = "\<lambda>enc tokens max_tokens overlap start chunks r.
                    \<not> (max_tokens \<le> overlap \<and> start < int (length tokens))", OF _ Some])
    fix f and enc :: encoding and tokens max_tokens overlap start chunks r
    assume IH: "\<And>enc tokens max_tokens overlap start chunks r.
        f enc tokens max_tokens overlap start chunks = Some r \<Longrightarrow>
        \<not> (max_tokens \<le> overlap \<and> start < int (length tokens))"
      and eq: "(if start < int (length tokens) then
        (let end = start + max_tokens;
             chunk_tokens = py_slice tokens start end;
             chunk_text = decode enc chunk_tokens
         in f enc tokens max_tokens overlap (start + (max_tokens - overlap))
              (chunks @ [chunk_text]))
      else Some chunks) = Some r"
    show "\<not> (max_tokens \<le> overlap \<and> start < int (length tokens))"
    proof
      assume c: "max_tokens \<le> overlap \<and> start < int (length tokens)"
      with eq have "f enc tokens max_tokens overlap (start + (max_tokens - overlap))
              (chunks @ [decode enc (py_slice tokens start (start + max_tokens))]) = Some r"
        by (simp add: Let_def)
      from IH [OF this] c show False by simp
    qed
  qed
  with assms show ?thesis by simp
qed


subsection \<open>Windows and what they share\<close>

lemma less_ceil_quot_iff:
  fixes s :: int
  assumes "0 < s"
  shows "k < nat \<lceil>real n / real_of_int s\<rceil> \<longleftrightarrow> int k * s < int n"
proof -
  have "k < nat \<lceil>real n / real_of_int s\<rceil> \<longleftrightarrow> int k < \<lceil>real n / real_of_int s\<rceil>"
    by linarith
  also have "\<dots> \<longleftrightarrow> real_of_int (int k) < real n / real_of_int s"
    by (rule less_ceiling_iff)
  also have "\<dots> \<longleftrightarrow> real_of_int (int k) * real_of_int s < real n"
    using assms by (simp add: pos_less_divide_eq)
  also have "\<dots> \<longleftrightarrow> real_of_int (int k * s) < real_of_int (int n)"
    by simp
  also have "\<dots> \<longleftrightarrow> int k * s < int n"
    by (rule of_int_less_iff)
  finally show ?thesis .
qed

lemma nth_bounds_nat:
  assumes "0 \<le> overlap" "overlap < max_tokens"
  shows "nth_bounds n max_tokens overlap 0 k =
     (min (k * nat (max_tokens - overlap)) n, min (k * nat (max_tokens - overlap) + nat max_tokens) n)"
proof -
  have "0 \<le> int k * (max_tokens - overlap)"
    using assms by simp
  moreover have "int (k * nat (max_tokens - overlap)) = int k * (max_tokens - overlap)"
    using assms by simp
  ultimately show ?thesis
    using assms
    by (auto simp add: nth_bounds_def py_slice_bounds_def py_clamp_def min_def nat_add_distrib
        simp del: of_nat_mult)
qed

lemma shared_eq: "shared (a, b) (c, d) = min b d - max a c"
proof -
  have "shared (a, b) (c, d) = card ({i. i \<in> set [c..<d]} \<inter> set [a..<b])"
    unfolding shared_def window_indices_def
    by (simp add: distinct_length_filter)
  also have "{i. i \<in> set [c..<d]} \<inter> set [a..<b] = {max a c..<min b d}"
    by auto
  finally show ?thesis by simp
qed

lemma chunk_windows_closed:
  assumes "overlap < max_tokens"
  shows "chunk_windows enc text max_tokens overlap =
     Some (map (nth_bounds (length (encode enc text)) max_tokens overlap 0)
       [0..<nat \<lceil>real (length (encode enc text)) / real_of_int (max_tokens - overlap)\<rceil>])"
  unfolding chunk_windows_def
  by (simp add: window_loop_closed [OF assms])

lemma chunk_text_windows:
  assumes "overlap < max_tokens"
  shows "chunk_text_by_tokens enc text max_tokens overlap =
     map_option (map (\<lambda>w. decode enc (slice_of (encode enc text) w)))
       (chunk_windows enc text max_tokens overlap)"
  unfolding chunk_text_by_tokens_def chunk_windows_def
  by (simp add: chunk_loop_windows [OF assms])

lemma chunk_text_returns:
  assumes "overlap < max_tokens"
  shows "\<exists>chunks. chunk_text_by_tokens enc text max_tokens overlap = Some chunks"
  by (simp add: chunk_text_windows [OF assms] chunk_windows_closed [OF assms])

subsection \<open>Number of chunks\<close>

text \<open>
  Claim C1, as the code has it: for \<open>overlap < max_tokens\<close> and a text of \<open>T\<close> tokens,
  \<open>chunk_text_by_tokens\<close> returns, and it returns exactly
  \<open>ceil(T / (max_tokens - overlap))\<close> chunks: one for every start offset
  \<open>0, W - O, 2 (W - O), \<dots>\<close> below \<open>T\<close>. For \<open>T = 0\<close> that is no chunk.
\<close>

theorem chunk_count:
  assumes "overlap < max_tokens"
  shows "map_option length (chunk_text_by_tokens enc text max_tokens overlap) =
     Some (nat \<lceil>real (length (encode enc text)) / real_of_int (max_tokens - overlap)\<rceil>)"
  by (simp add: chunk_text_windows [OF assms] chunk_windows_closed [OF assms])

text \<open>Ten tokens, window 4, overlap 2: five chunks.\<close>

theorem chunk_count_witness:
  "(2::int) < 4 \<and> map_option length (chunk_text_by_tokens char_encoding ''abcdefghij'' 4 2) = Some 5"
  using chunk_count [of 2 4 char_encoding "''abcdefghij''"]
  by (simp add: char_encoding_def)

text \<open>
  The count of the specification, \<open>ceil((T - O) / (W - O))\<close> for \<open>T > O\<close> and 1 for
  \<open>0 < T \<le> O\<close>, is not what the loop produces: ten tokens with window 4 and
  overlap 2 give five chunks where the formula says four, and three tokens with window 6
  and overlap 5 give three chunks where it says one.
\<close>

theorem chunk_count_counterexample:
  "map_option (int \<circ> length) (chunk_text_by_tokens char_encoding ''abcdefghij'' 4 2) = Some 5
   \<and> spec_chunk_count (int (length (encode char_encoding ''abcdefghij''))) 4 2 = 4
   \<and> map_option (int \<circ> length) (chunk_text_by_tokens char_encoding ''abc'' 6 5) = Some 3
   \<and> spec_chunk_count (int (length (encode char_encoding ''abc''))) 6 5 = 1"
  by (simp add: chunk_text_by_tokens_def chunk_loop.simps spec_chunk_count_def char_encoding_def)

subsection \<open>Termination and the missing guard\<close>

text \<open>
  Claim C3, as the code has it: the chunker checks none of its parameters and has no
  error result. With \<open>overlap < max_tokens\<close> it returns for every text. With
  \<open>overlap \<ge> max_tokens\<close> it returns, with the empty list, exactly when the text has no
  tokens; on any other text it does not return.
\<close>

theorem chunker_termination:
  "(overlap < max_tokens \<longrightarrow> chunk_text_by_tokens enc text max_tokens overlap \<noteq> None)
   \<and> (max_tokens \<le> overlap \<longrightarrow>
        chunk_text_by_tokens enc text max_tokens overlap =
          (if encode enc text = [] then Some [] else None))"
proof (intro conjI impI)
  assume "overlap < max_tokens"
  then show "chunk_text_by_tokens enc text max_tokens overlap \<noteq> None"
    by (simp add: chunk_text_windows chunk_windows_closed)
next
  assume le: "max_tokens \<le> overlap"
  show "chunk_text_by_tokens enc text max_tokens overlap =
          (if encode enc text = [] then Some [] else None)"
  proof (cases "encode enc text = []")
    case True
    then show ?thesis
      by (simp add: chunk_text_by_tokens_def chunk_loop.simps)
  next
    case False
    then have "(0::int) < int (length (encode enc text))" by simp
    from chunk_loop_diverges [OF le this] False show ?thesis
      by (simp add: chunk_text_by_tokens_def)
  qed
qed

text \<open>The default overlap of 200 with a window of 6000, and overlap = window = 1.\<close>

theorem chunker_termination_witness:
  "(200::int) < 6000 \<and> chunk_text_by_tokens char_encoding ''abc'' 6000 200 \<noteq> None
   \<and> (1::int) \<le> 1 \<and> chunk_text_by_tokens char_encoding ''a'' 1 1 = None
   \<and> chunk_text_by_tokens char_encoding [] 1 1 = Some []"
  using chunker_termination [of 200 6000 char_encoding "''abc''"]
    chunker_termination [of 1 1 char_encoding "''a''"]
    chunker_termination [of 1 1 char_encoding "[]"]
  by (simp add: char_encoding_def)

text \<open>
  With \<open>overlap = max_tokens = 1\<close> and a text of one token the call does not fail fast:
  it does not return at all.
\<close>

theorem chunker_no_guard_counterexample:
  "chunk_text_by_tokens char_encoding ''a'' 1 1 = None"
proof -
  have "(0::int) < int (length (encode char_encoding ''a''))"
    by (simp add: char_encoding_def)
  then show ?thesis
    unfolding chunk_text_by_tokens_def
    by (intro chunk_loop_diverges) simp_all
qed

subsection \<open>Coverage and overlap of the token windows\<close>

lemma int_min_diff:
  fixes m n :: nat and ov :: int
  assumes "m < n" and "0 \<le> ov"
  shows "int (min (nat ov) (n - m)) = min ov (int n - int m)"
  using assms by arith

text \<open>
  Claim C4, as the code has it: for \<open>0 \<le> overlap < max_tokens\<close> the chunks are the
  decoded token windows \<open>ws\<close>, the windows cover every token index below the token
  count, and consecutive windows \<open>k\<close> and \<open>k + 1\<close> share
  \<open>min overlap (T - (k + 1) (max_tokens - overlap))\<close> token indices: exactly
  \<open>overlap\<close> whenever window \<open>k\<close> holds the full \<open>max_tokens\<close> tokens. Where the
  overlap is at most half the window, every pair of consecutive windows shares exactly
  \<open>overlap\<close> token indices, except possibly the pair that ends at the last window.
\<close>

theorem chunk_windows_cover:
  assumes "0 \<le> overlap" and "overlap < max_tokens"
  shows "\<exists>ws. chunk_windows enc text max_tokens overlap = Some ws
    \<and> chunk_text_by_tokens enc text max_tokens overlap =
        Some (map (\<lambda>w. decode enc (slice_of (encode enc text) w)) ws)
    \<and> covered ws = {0..<length (encode enc text)}
    \<and> (\<forall>k. Suc k < length ws \<longrightarrow>
          int (shared (ws ! k) (ws ! Suc k)) =
            min overlap (int (length (encode enc text)) - int (Suc k) * (max_tokens - overlap)))
    \<and> (\<forall>k. Suc k < length ws \<longrightarrow> snd (ws ! k) - fst (ws ! k) = nat max_tokens \<longrightarrow>
          int (shared (ws ! k) (ws ! Suc k)) = overlap)
    \<and> (2 * overlap \<le> max_tokens \<longrightarrow>
          (\<forall>k. Suc (Suc k) < length ws \<longrightarrow> int (shared (ws ! k) (ws ! Suc k)) = overlap))"
proof -
  let ?n = "length (encode enc text)"
  let ?s = "nat (max_tokens - overlap)"
  let ?w = "nat max_tokens"
  let ?cnt = "nat \<lceil>real ?n / real_of_int (max_tokens - overlap)\<rceil>"
  let ?ws = "map (nth_bounds ?n max_tokens overlap 0) [0..<?cnt]"
  have s: "0 < ?s" and sw: "?s \<le> ?w" and ws_eq: "?w = ?s + nat overlap"
    using assms by simp_all
  have cnt: "k < ?cnt \<longleftrightarrow> k * ?s < ?n" for k
  proof -
    have e: "int k * (max_tokens - overlap) = int (k * ?s)"
      using assms by simp
    have "k < ?cnt \<longleftrightarrow> int k * (max_tokens - overlap) < int ?n"
      using assms by (intro less_ceil_quot_iff) simp
    then show ?thesis
      unfolding e by (simp only: of_nat_less_iff)
  qed
  have nth: "?ws ! k = (k * ?s, min (k * ?s + ?w) ?n)" if "k < ?cnt" for k
  proof -
    from that have "k * ?s < ?n" by (simp only: cnt)
    then have "min (k * ?s) ?n = k * ?s" by simp
    moreover have "?ws ! k = nth_bounds ?n max_tokens overlap 0 k"
      using that by (simp only: nth_map_upt minus_nat.diff_0 add_0)
    ultimately show ?thesis
      by (simp only: nth_bounds_nat [OF assms])
  qed
  have len: "length ?ws = ?cnt" by simp
  have windows: "chunk_windows enc text max_tokens overlap = Some ?ws"
    by (rule chunk_windows_closed [OF assms(2)])
  have texts: "chunk_text_by_tokens enc text max_tokens overlap =
        Some (map (\<lambda>w. decode enc (slice_of (encode enc text) w)) ?ws)"
    by (simp only: chunk_text_windows [OF assms(2)] windows option.map)
  have cover: "covered ?ws = {0..<?n}"
  proof (intro set_eqI iffI)
    fix i assume "i \<in> covered ?ws"
    then obtain k where "k < ?cnt" and "i \<in> set (window_indices (?ws ! k))"
      by (auto simp: covered_def)
    then have "i \<in> set (window_indices (k * ?s, min (k * ?s + ?w) ?n))"
      by (simp only: nth)
    then show "i \<in> {0..<?n}"
      by (simp add: window_indices_def)
  next
    fix i assume "i \<in> {0..<?n}"
    then have i: "i < ?n" by simp
    let ?k = "i div ?s"
    have lo: "?k * ?s \<le> i" by simp
    have "i < ?k * ?s + ?s"
      using s by (metis div_mult_mod_eq add_less_cancel_left mod_less_divisor)
    with sw have hi: "i < ?k * ?s + ?w" by linarith
    from lo i have "?k * ?s < ?n" by linarith
    then have k: "?k < ?cnt" by (simp only: cnt)
    from lo hi i have "i \<in> set (window_indices (?k * ?s, min (?k * ?s + ?w) ?n))"
      by (simp add: window_indices_def)
    then have "i \<in> set (window_indices (?ws ! ?k))"
      by (simp only: nth [OF k])
    moreover from k have "?ws ! ?k \<in> set ?ws"
      by (intro nth_mem) simp
    ultimately show "i \<in> covered ?ws"
      unfolding covered_def by auto
  qed
  have sh: "int (shared (?ws ! k) (?ws ! Suc k)) =
      min overlap (int ?n - int (Suc k) * (max_tokens - overlap))" if "Suc k < ?cnt" for k
  proof -
    from that have k: "k < ?cnt" by simp
    from that have lt: "Suc k * ?s < ?n" by (simp only: cnt)
    have suc: "Suc k * ?s = k * ?s + ?s" by simp
    have "shared (?ws ! k) (?ws ! Suc k) =
        shared (k * ?s, min (k * ?s + ?w) ?n) (Suc k * ?s, min (Suc k * ?s + ?w) ?n)"
      by (simp only: nth [OF k] nth [OF that])
    also have "\<dots> = min (k * ?s + ?w) ?n - Suc k * ?s"
      unfolding shared_eq suc by (simp add: min.assoc [symmetric])
    also have "\<dots> = min (nat overlap) (?n - Suc k * ?s)"
      using lt unfolding suc ws_eq by arith
    finally have "int (shared (?ws ! k) (?ws ! Suc k)) = int (min (nat overlap) (?n - Suc k * ?s))"
      by simp
    also have "\<dots> = min overlap (int ?n - int (Suc k * ?s))"
      using lt assms(1) by (intro int_min_diff)
    also have "int (Suc k * ?s) = int (Suc k) * (max_tokens - overlap)"
      using assms by (simp only: of_nat_mult) simp
    finally show ?thesis .
  qed
  have full: "int (shared (?ws ! k) (?ws ! Suc k)) = overlap"
    if "Suc k < ?cnt" and "snd (?ws ! k) - fst (?ws ! k) = ?w" for k
  proof -
    from that have k: "k < ?cnt" by simp
    from that(1) have lt: "Suc k * ?s < ?n" by (simp only: cnt)
    from that(2) have "min (k * ?s + ?w) ?n - k * ?s = ?w"
      by (simp only: nth [OF k] fst_conv snd_conv)
    moreover have "0 < ?w"
      using assms by simp
    ultimately have "k * ?s + ?w \<le> ?n"
      by arith
    then have "Suc k * ?s + nat overlap \<le> ?n"
      unfolding ws_eq by simp
    then have "int (Suc k * ?s) + int (nat overlap) \<le> int ?n"
      by (simp only: of_nat_add [symmetric] of_nat_le_iff)
    moreover have "int (Suc k * ?s) = int (Suc k) * (max_tokens - overlap)"
      using assms by (simp only: of_nat_mult) simp
    ultimately have "overlap \<le> int ?n - int (Suc k) * (max_tokens - overlap)"
      using assms(1) by simp
    with sh [OF that(1)] show ?thesis by simp
  qed
  have inner: "int (shared (?ws ! k) (?ws ! Suc k)) = overlap"
    if half: "2 * overlap \<le> max_tokens" and k2: "Suc (Suc k) < ?cnt" for k
  proof -
    from k2 have k1: "Suc k < ?cnt" by simp
    from k2 have "Suc (Suc k) * ?s < ?n" by (simp only: cnt)
    then have "int (Suc (Suc k) * ?s) < int ?n" by (simp only: of_nat_less_iff)
    moreover have "int (Suc (Suc k) * ?s) = int (Suc k) * (max_tokens - overlap) + (max_tokens - overlap)"
      using assms by (simp only: of_nat_mult) (simp add: algebra_simps)
    ultimately have "overlap \<le> int ?n - int (Suc k) * (max_tokens - overlap)"
      using half by linarith
    with sh [OF k1] show ?thesis by simp
  qed
  show ?thesis
    using windows texts cover sh full inner len by (intro exI [of _ ?ws]) simp
qed

text \<open>Ten tokens, window 4, overlap 2.\<close>

theorem chunk_windows_cover_witness:
  "(0::int) \<le> 2 \<and> (2::int) < 4
   \<and> chunk_windows char_encoding ''abcdefghij'' 4 2 = Some [(0, 4), (2, 6), (4, 8), (6, 10), (8, 10)]
   \<and> chunk_text_by_tokens char_encoding ''abcdefghij'' 4 2
        = Some [''abcd'', ''cdef'', ''efgh'', ''ghij'', ''ij'']
   \<and> covered [(0, 4), (2, 6), (4, 8), (6, 10), (8, 10)] = {0..<10}
   \<and> shared (0, 4) (2, 6) = 2
   \<and> (2::int) * 2 \<le> 4 \<and> shared (4, 8) (6, 10) = 2"
proof -
  let ?ws = "[(0, 4), (2, 6), (4, 8), (6, 10), (8, 10)] :: (nat \<times> nat) list"
  have ev: "chunk_windows char_encoding ''abcdefghij'' 4 2 = Some ?ws"
    by code_simp
  have len: "length (encode char_encoding ''abcdefghij'') = 10"
    by (simp add: char_encoding_def)
  have dec: "map (\<lambda>w. decode char_encoding (slice_of (encode char_encoding ''abcdefghij'') w)) ?ws
      = [''abcd'', ''cdef'', ''efgh'', ''ghij'', ''ij'']"
    by code_simp
  from chunk_windows_cover [of 2 4 char_encoding "''abcdefghij''"] ev
  have texts: "chunk_text_by_tokens char_encoding ''abcdefghij'' 4 2 =
        Some (map (\<lambda>w. decode char_encoding (slice_of (encode char_encoding ''abcdefghij'') w)) ?ws)"
    and cov: "covered ?ws = {0..<length (encode char_encoding ''abcdefghij'')}"
    and sh: "\<forall>k. Suc k < length ?ws \<longrightarrow> snd (?ws ! k) - fst (?ws ! k) = nat 4 \<longrightarrow>
          int (shared (?ws ! k) (?ws ! Suc k)) = 2"
    and inner: "\<forall>k. Suc (Suc k) < length ?ws \<longrightarrow> int (shared (?ws ! k) (?ws ! Suc k)) = 2"
    by simp_all
  from sh have "int (shared (?ws ! 0) (?ws ! Suc 0)) = 2"
    by (elim allE [of _ 0]) simp
  then have first: "shared (0, 4) (2, 6) = 2" by simp
  from inner have "int (shared (?ws ! 2) (?ws ! Suc 2)) = 2"
    by (elim allE [of _ 2]) simp
  then have "shared (4, 8) (6, 10) = 2" by simp
  with first ev texts cov show ?thesis
    unfolding dec len by simp
qed

text \<open>
  Six tokens with window 4 and overlap 3 give six windows; windows 3 and 4 share two
  token indices, not three, and window 4 is not the last one. With a negative overlap
  the windows leave gaps: three tokens with window 2 and overlap -1 give the single
  window \<open>[0, 2)\<close>, which misses token index 2.
\<close>

theorem chunk_windows_cover_counterexample:
  "chunk_windows char_encoding ''abcdef'' 4 3 = Some [(0, 4), (1, 5), (2, 6), (3, 6), (4, 6), (5, 6)]
   \<and> shared ([(0, 4), (1, 5), (2, 6), (3, 6), (4, 6), (5, 6)] ! 3)
        ([(0, 4), (1, 5), (2, 6), (3, 6), (4, 6), (5, 6)] ! 4) = 2
   \<and> chunk_windows char_encoding ''abc'' 2 (- 1) = Some [(0, 2)]
   \<and> 2 \<notin> covered [(0, 2)]"
  by code_simp

section \<open>Properties of the retrieval functions\<close>

lemma new_calls_append [simp]:
  "new_calls st (st\<lparr>ext := w, calls := calls st @ cs\<rparr>) = cs"
  by (simp add: new_calls_def)

lemma new_calls_same [simp]: "new_calls st st = []"
  by (simp add: new_calls_def)

lemma new_calls_app: "calls st' = calls st @ cs \<Longrightarrow> new_calls st st' = cs"
  by (simp add: new_calls_def)

lemmas try_defs = bind_try_def pure_try_def do_embed_def do_query_def item0_def

subsection \<open>The direct call never raises\<close>

lemma helper_format_shape:
  "helper_format ms acc = Inr rs \<Longrightarrow> list_all is_result_dict acc \<Longrightarrow> list_all is_result_dict rs"
  by (induction ms arbitrary: acc) (auto simp: is_result_dict_def split: sum.splits)

lemma helper_format_length:
  "helper_format ms acc = Inr rs \<Longrightarrow> length rs = length acc + length ms"
  by (induction ms arbitrary: acc) (auto split: sum.splits)

lemma result_dict_no_error: "is_result_dict r \<Longrightarrow> \<not> has_error_key r"
  by (auto simp: is_result_dict_def has_error_key_def has_key_def split: py_value.splits)

text \<open>
  Claim C9: \<open>search_faq\<close> of search\_helper.py returns a list for every query and every
  behaviour of the services. When the embedding call raises \<open>e\<close>, or the embedding call
  answers and the index call raises \<open>e\<close>, the result is exactly the one-element list
  \<^verbatim>\<open>[{"error": str(e)}]\<close>. Every result is either such an error list or a list of
  result dictionaries with the keys \<^verbatim>\<open>score\<close>, \<^verbatim>\<open>source\<close>, \<^verbatim>\<open>content_preview\<close>, never
  both, and no result dictionary has the key \<^verbatim>\<open>error\<close>.
\<close>

theorem search_helper_total:
  "(fst (co_embed sv [query] ''embed-english-v3.0'' ''search_query'' (ext st)) = Inl e \<longrightarrow>
      fst (search_helper_search_faq sv query top_k st) = error_list (str e))
   \<and> (co_embed sv [query] ''embed-english-v3.0'' ''search_query'' (ext st) = (Inr (v # vs), w)
        \<and> fst (index_query sv v top_k True w) = Inl e \<longrightarrow>
      fst (search_helper_search_faq sv query top_k st) = error_list (str e))
   \<and> ((\<exists>s. fst (search_helper_search_faq sv query top_k st) = error_list s)
        \<noteq> list_all is_result_dict (fst (search_helper_search_faq sv query top_k st)))
   \<and> (list_all is_result_dict (fst (search_helper_search_faq sv query top_k st)) \<longrightarrow>
        list_all (\<lambda>r. \<not> has_error_key r) (fst (search_helper_search_faq sv query top_k st)))"
proof (intro conjI impI)
  assume "fst (co_embed sv [query] ''embed-english-v3.0'' ''search_query'' (ext st)) = Inl e"
  then show "fst (search_helper_search_faq sv query top_k st) = error_list (str e)"
    by (auto simp: search_helper_search_faq_def search_helper_try_def bind_try_def do_embed_def
        error_list_def split: prod.splits sum.splits)
next
  assume "co_embed sv [query] ''embed-english-v3.0'' ''search_query'' (ext st) = (Inr (v # vs), w)
        \<and> fst (index_query sv v top_k True w) = Inl e"
  then show "fst (search_helper_search_faq sv query top_k st) = error_list (str e)"
    by (auto simp: search_helper_search_faq_def search_helper_try_def bind_try_def pure_try_def
        do_embed_def do_query_def item0_def error_list_def split: prod.splits sum.splits)
next
  let ?res = "fst (search_helper_search_faq sv query top_k st)"
  show "(\<exists>s. ?res = error_list s) \<noteq> list_all is_result_dict ?res"
  proof (cases "search_helper_try sv query top_k st")
    case (Pair r st1)
    show ?thesis
    proof (cases r)
      case (Inl e')
      with Pair have "?res = error_list (str e')"
        by (simp add: search_helper_search_faq_def error_list_def)
      then show ?thesis
        by (auto simp: error_list_def is_result_dict_def)
    next
      case (Inr rs)
      with Pair have res: "?res = rs"
        by (simp add: search_helper_search_faq_def)
      from Pair Inr have "list_all is_result_dict rs"
        by (auto simp: search_helper_try_def bind_try_def pure_try_def
            split: prod.splits sum.splits dest: helper_format_shape)
      then show ?thesis
        unfolding res by (auto simp: error_list_def is_result_dict_def)
    qed
  qed
next
  assume "list_all is_result_dict (fst (search_helper_search_faq sv query top_k st))"
  then show "list_all (\<lambda>r. \<not> has_error_key r) (fst (search_helper_search_faq sv query top_k st))"
    by (auto simp: list_all_iff dest: result_dict_no_error)
qed

text \<open>The embedding service down, the index down, and both up.\<close>

theorem search_helper_total_witness:
  "fst (search_helper_search_faq down_services ''What is the refund policy?'' 3 (init_state ()))
     = error_list ''embedding service unavailable''
   \<and> fst (search_helper_search_faq index_down_services ''What is the refund policy?'' 3 (init_state ()))
     = error_list ''index unavailable''
   \<and> fst (search_helper_search_faq up_services ''What is the refund policy?'' 3 (init_state ()))
     = [PyDict [(''score'', PyFloat 1), (''source'', PyStr ''refund.pdf''),
                (''content_preview'', PyStr ''Refunds are processed within 14 days.'')]]
   \<and> list_all (\<lambda>r. \<not> has_error_key r)
        (fst (search_helper_search_faq up_services ''What is the refund policy?'' 3 (init_state ())))"
proof -
  have up: "fst (search_helper_search_faq up_services ''What is the refund policy?'' 3 (init_state ()))
     = [PyDict [(''score'', PyFloat 1), (''source'', PyStr ''refund.pdf''),
                (''content_preview'', PyStr ''Refunds are processed within 14 days.'')]]"
    by (simp add: search_helper_search_faq_def search_helper_try_def bind_try_def pure_try_def
        do_embed_def do_query_def item0_def up_services_def init_state_def example_match_def
        dict_get_def slice_to_def)
  have shape: "list_all is_result_dict
     (fst (search_helper_search_faq up_services ''What is the refund policy?'' 3 (init_state ())))"
    unfolding up by (simp add: is_result_dict_def)
  show ?thesis
    using search_helper_total [of down_services "''What is the refund policy?''" "init_state ()"
        "Exception ''embedding service unavailable''" 3]
      search_helper_total [of index_down_services "''What is the refund policy?''" "init_state ()"
        "Exception ''index unavailable''" 3 "[1, 0]" "[]" "()"]
      search_helper_total [of up_services "''What is the refund policy?''" "init_state ()" _ 3]
      shape up
    by (simp add: down_services_def index_down_services_def init_state_def)
qed

subsection \<open>Validation before the network calls\<close>

text \<open>
  Claim C2, as the code has it. The handler of api\_vercel.py rejects an empty query with
  \<^verbatim>\<open>HTTPException(400, "Missing 'query' parameter")\<close> before any network call. No
  handler checks \<^verbatim>\<open>top_k\<close>: for a non-empty query the handler of api\_server.py issues
  the embedding call first, whatever \<^verbatim>\<open>top_k\<close> is, and passes \<^verbatim>\<open>top_k\<close> unchanged to the
  index query; the only failure it reports is the 500 of its exception handler. The
  handler of api\_vercel.py takes no \<^verbatim>\<open>top_k\<close> and queries with 3.
\<close>

theorem search_validation:
  "fst (api_vercel_search_faq sv [] st) = Inl (HTTPException 400 missing_query)
   \<and> new_calls st (snd (api_vercel_search_faq sv [] st)) = []
   \<and> (query \<noteq> [] \<longrightarrow>
        (new_calls st (snd (api_server_search_faq sv lib (SearchQuery query top_k) st))
           = [EmbedCall [query] ''embed-english-v3.0'' ''search_query'']
         \<or> (\<exists>v. new_calls st (snd (api_server_search_faq sv lib (SearchQuery query top_k) st))
           = [EmbedCall [query] ''embed-english-v3.0'' ''search_query'', QueryCall v top_k True])))
   \<and> (query \<noteq> [] \<longrightarrow>
        (case fst (api_server_search_faq sv lib (SearchQuery query top_k) st) of
           Inl h \<Rightarrow> status_code h = 500 | Inr rs \<Rightarrow> True))
   \<and> (query \<noteq> [] \<longrightarrow>
        (new_calls st (snd (api_vercel_search_faq sv query st))
           = [EmbedCall [query] ''embed-english-v3.0'' ''search_query'']
         \<or> (\<exists>v. new_calls st (snd (api_vercel_search_faq sv query st))
           = [EmbedCall [query] ''embed-english-v3.0'' ''search_query'', QueryCall v 3 True])))"
  by (auto simp: api_vercel_search_faq_def api_vercel_try_def api_server_search_faq_def try_defs
      split: prod.splits sum.splits list.splits)

text \<open>The query \<^verbatim>\<open>"valid question"\<close> with \<^verbatim>\<open>top_k = 0\<close>, and the empty query.\<close>

theorem search_validation_witness:
  "''valid question'' \<noteq> []
   \<and> fst (api_vercel_search_faq up_services [] (init_state ())) = Inl (HTTPException 400 missing_query)
   \<and> new_calls (init_state ()) (snd (api_vercel_search_faq up_services [] (init_state ()))) = []
   \<and> new_calls (init_state ())
        (snd (api_server_search_faq up_services example_lib (SearchQuery ''valid question'' 0) (init_state ())))
       = [EmbedCall [''valid question''] ''embed-english-v3.0'' ''search_query'', QueryCall [1, 0] 0 True]
   \<and> fst (api_server_search_faq down_services example_lib (SearchQuery ''valid question'' 0) (init_state ()))
       = Inl (HTTPException 500 ''embedding service unavailable'')
   \<and> new_calls (init_state ()) (snd (api_vercel_search_faq up_services ''valid question'' (init_state ())))
       = [EmbedCall [''valid question''] ''embed-english-v3.0'' ''search_query'', QueryCall [1, 0] 3 True]"
proof -
  have ne: "''valid question'' \<noteq> []" by simp
  have a: "new_calls (init_state ())
        (snd (api_server_search_faq up_services example_lib (SearchQuery ''valid question'' 0) (init_state ())))
       = [EmbedCall [''valid question''] ''embed-english-v3.0'' ''search_query'', QueryCall [1, 0] 0 True]"
    by (simp add: api_server_search_faq_def try_defs up_services_def init_state_def new_calls_def
        example_lib_def example_match_def dict_get_def)
  have b: "fst (api_server_search_faq down_services example_lib (SearchQuery ''valid question'' 0) (init_state ()))
       = Inl (HTTPException 500 ''embedding service unavailable'')"
    by (simp add: api_server_search_faq_def try_defs down_services_def init_state_def)
  have c: "new_calls (init_state ()) (snd (api_vercel_search_faq up_services ''valid question'' (init_state ())))
       = [EmbedCall [''valid question''] ''embed-english-v3.0'' ''search_query'', QueryCall [1, 0] 3 True]"
    by (simp add: api_vercel_search_faq_def api_vercel_try_def try_defs up_services_def init_state_def
        new_calls_def example_match_def dict_get_def slice_to_def)
  from search_validation [of up_services "init_state ()" "''valid question''" example_lib 0]
    search_validation [of down_services "init_state ()" "''valid question''" example_lib 0]
    ne a b c
  show ?thesis by simp
qed

text \<open>
  \<^verbatim>\<open>search("valid question", topK=0)\<close> through api\_server.py does not fail: it issues
  the embedding call and the index query with \<^verbatim>\<open>top_k = 0\<close> and returns what the index
  answers. Nor does \<^verbatim>\<open>search("", topK=3)\<close> through api\_server.py: the empty query is
  embedded.
\<close>

theorem search_validation_counterexample:
  "api_server_search_faq up_services example_lib (SearchQuery ''valid question'' 0) (init_state ())
     = (Inr [\<lparr>result_score = 1, result_source = ''refund.pdf'',
              result_content = ''Refunds are processed within 14 days.''\<rparr>],
        \<lparr>ext = (),
         calls = [EmbedCall [''valid question''] ''embed-english-v3.0'' ''search_query'',
                  QueryCall [1, 0] 0 True],
         out = []\<rparr>)
   \<and> api_server_search_faq up_services example_lib (SearchQuery [] 3) (init_state ())
     = (Inr [\<lparr>result_score = 1, result_source = ''refund.pdf'',
              result_content = ''Refunds are processed within 14 days.''\<rparr>],
        \<lparr>ext = (),
         calls = [EmbedCall [[]] ''embed-english-v3.0'' ''search_query'',
                  QueryCall [1, 0] 3 True],
         out = []\<rparr>)"
  by (simp add: api_server_search_faq_def try_defs up_services_def init_state_def
      example_lib_def example_match_def dict_get_def)

section \<open>Properties of the ingestion\<close>

subsection \<open>Printing, embedding and the loop over the chunks\<close>

lemma print_calls [simp]: "calls (print line st) = calls st"
  by (simp add: print_def)

lemma print_ext [simp]: "ext (print line st) = ext st"
  by (simp add: print_def)

lemma print_out [simp]: "out (print line st) = out st @ [line]"
  by (simp add: print_def)

lemma embed_text_calls:
  "calls (snd (embed_text sv text st)) = calls st @ [doc_call text]"
  by (auto simp: embed_text_def try_defs doc_call_def split: prod.splits sum.splits list.splits)

lemma embed_query_calls:
  "calls (snd (embed_query sv text st)) =
     calls st @ [EmbedCall [text] ''embed-english-v3.0'' ''search_query'']"
  by (auto simp: embed_query_def try_defs split: prod.splits sum.splits list.splits)

lemma extract_pdf_text_calls [simp]: "calls (snd (extract_pdf_text fs file_path st)) = calls st"
  by (simp add: extract_pdf_text_def split: sum.splits)

lemma extract_pdf_text_fst [simp]:
  "fst (extract_pdf_text fs file_path st) = (case read_pdf fs file_path of Inl e \<Rightarrow> [] | Inr t \<Rightarrow> t)"
  by (simp add: extract_pdf_text_def split: sum.splits)

text \<open>The vectors and the calls of the loop over the chunks.\<close>

lemma embed_chunks_calls:
  "calls (snd (embed_chunks sv filename chunks ics pv st)) = calls st @ map (doc_call \<circ> snd) ics"
proof (induction ics arbitrary: pv st)
  case Nil
  then show ?case by simp
next
  case (Cons ic ics)
  obtain idx chunk where ic: "ic = (idx, chunk)" by (cases ic)
  obtain r st1 where e: "embed_text sv chunk st = (r, st1)" by (cases "embed_text sv chunk st")
  from embed_text_calls [of sv chunk st] e
  have c1: "calls st1 = calls st @ [doc_call chunk]" by simp
  show ?case
    using e c1 by (cases r) (simp_all add: ic Cons.IH)
qed

lemma embed_chunks_vectors:
  "\<exists>es. fst (embed_chunks sv filename chunks ics pv st) =
          pv @ map (\<lambda>((idx, chunk), emb). make_vector filename chunks idx chunk emb) es
        \<and> subseq (map fst es) ics"
proof (induction ics arbitrary: pv st)
  case Nil
  show ?case by (intro exI [of _ "[]"]) simp
next
  case (Cons ic ics)
  obtain idx chunk where ic: "ic = (idx, chunk)" by (cases ic)
  obtain r st1 where e: "embed_text sv chunk st = (r, st1)" by (cases "embed_text sv chunk st")
  show ?case
  proof (cases r)
    case (Inl err)
    let ?st = "print (''  Error embedding chunk '' @ str_int (int idx) @ '' of '' @ filename
                      @ '': '' @ str err) st1"
    from Cons.IH [of pv ?st] obtain es where
      "fst (embed_chunks sv filename chunks ics pv ?st) =
          pv @ map (\<lambda>((idx, chunk), emb). make_vector filename chunks idx chunk emb) es"
      and "subseq (map fst es) ics" by blast
    with e Inl show ?thesis
      by (intro exI [of _ es]) (simp add: ic list_emb_Cons)
  next
    case (Inr emb)
    let ?pv = "pv @ [make_vector filename chunks idx chunk emb]"
    from Cons.IH [of ?pv st1] obtain es where
      "fst (embed_chunks sv filename chunks ics ?pv st1) =
          ?pv @ map (\<lambda>((idx, chunk), emb). make_vector filename chunks idx chunk emb) es"
      and "subseq (map fst es) ics" by blast
    with e Inr show ?thesis
      by (intro exI [of _ "((idx, chunk), emb) # es"]) (simp add: ic)
  qed
qed

subsection \<open>One document\<close>

lemma make_vector_meta [simp]:
  "meta_str (make_vector filename chunks idx chunk emb) ''source'' = filename"
  "meta_int (make_vector filename chunks idx chunk emb) ''chunk_index'' = int idx"
  "meta_int (make_vector filename chunks idx chunk emb) ''total_chunks'' = int (length chunks)"
  "meta_str (make_vector filename chunks idx chunk emb) ''content_preview'' = take 300 chunk"
  "vec_id (make_vector filename chunks idx chunk emb)
     = fst (splitext filename) @ ''-chunk-'' @ str_int (int idx)"
  by (simp_all add: make_vector_def meta_str_def meta_int_def)

lemma enumerate_list_mem:
  "(idx, chunk) \<in> set (enumerate_list chunks) \<longleftrightarrow> idx < length chunks \<and> chunk = chunks ! idx"
  by (force simp: enumerate_list_def set_zip)

lemma map_fst_enumerate [simp]: "map fst (enumerate_list chunks) = [0..<length chunks]"
  by (simp add: enumerate_list_def)

lemma map_snd_enumerate [simp]: "map snd (enumerate_list chunks) = chunks"
  by (simp add: enumerate_list_def)

lemma length_enumerate [simp]: "length (enumerate_list chunks) = length chunks"
  by (simp add: enumerate_list_def)

lemma process_file_None:
  "process_file sv fs enc m path pv st = None \<longleftrightarrow> document_chunks fs enc m path = None"
  by (auto simp: process_file_def document_chunks_def extract_pdf_text_def Let_def
      split: sum.splits option.splits prod.splits)


lemma process_file_vectors:
  assumes "process_file sv fs enc m path pv st = Some (pv', st')"
  shows "\<exists>new. pv' = pv @ new
    \<and> subseq (map vec_id new) (document_ids fs enc m path)
    \<and> list_all (record_of_chunk fs enc m path) new
    \<and> length new \<le> chunk_total fs enc m path"
proof (cases "document_chunks fs enc m path")
  case None
  then have "process_file sv fs enc m path pv st = None"
    by (simp only: process_file_None)
  with assms show ?thesis by simp
next
  case (Some chunks)
  obtain doc_text st2 where
    ex: "extract_pdf_text fs path (print (''Processing: '' @ basename path) st) = (doc_text, st2)"
    by (cases "extract_pdf_text fs path (print (''Processing: '' @ basename path) st)")
  show ?thesis
  proof (cases "doc_text = []")
    case True
    with assms ex have "pv' = pv"
      by (simp add: process_file_def Let_def)
    then show ?thesis
      by (intro exI [of _ "[]"]) simp
  next
    case False
    then have ne: "doc_text \<noteq> []" .
    from ex have "doc_text = (case read_pdf fs path of Inl e \<Rightarrow> [] | Inr t \<Rightarrow> t)"
      using extract_pdf_text_fst [of fs path "print (''Processing: '' @ basename path) st"] by simp
    with ne Some have ch: "chunk_text_by_tokens enc doc_text m 200 = Some chunks"
      by (auto simp: document_chunks_def split: sum.splits)
    let ?st3 = "print (''  Created '' @ str_int (int (length chunks)) @ '' chunks'') st2"
    from assms ex ne ch
    have res: "embed_chunks sv (basename path) chunks (enumerate_list chunks) pv ?st3 = (pv', st')"
      by (simp add: process_file_def Let_def)
    from embed_chunks_vectors [of sv "basename path" chunks "enumerate_list chunks" pv ?st3] res
    obtain es where
      pv': "pv' = pv @ map (\<lambda>((idx, chunk), emb). make_vector (basename path) chunks idx chunk emb) es"
      and sub: "subseq (map fst es) (enumerate_list chunks)"
      by auto
    let ?new = "map (\<lambda>((idx, chunk), emb). make_vector (basename path) chunks idx chunk emb) es"
    let ?idf = "\<lambda>idx. fst (splitext (basename path)) @ ''-chunk-'' @ str_int (int idx)"
    have ids: "map vec_id ?new = map (?idf \<circ> fst) (map fst es)"
      by (simp add: case_prod_beta comp_def)
    have "subseq (map (?idf \<circ> fst) (map fst es)) (map (?idf \<circ> fst) (enumerate_list chunks))"
      using sub by (rule subseq_map)
    also have "map (?idf \<circ> fst) (enumerate_list chunks) = map ?idf [0..<length chunks]"
      by (simp only: map_map [symmetric] map_fst_enumerate)
    finally have s1: "subseq (map vec_id ?new) (document_ids fs enc m path)"
      unfolding ids by (simp add: document_ids_def Some)
    have mem: "idx < length chunks \<and> chunk = chunks ! idx" if "((idx, chunk), emb) \<in> set es"
      for idx chunk emb
    proof -
      from that have "(idx, chunk) \<in> set (map fst es)" by force
      from list_emb_set [OF sub this] have "(idx, chunk) \<in> set (enumerate_list chunks)"
        by metis
      then show ?thesis by (simp add: enumerate_list_mem)
    qed
    have s2: "list_all (record_of_chunk fs enc m path) ?new"
      by (auto simp: list_all_iff record_of_chunk_def Some dest: mem)
    have "length ?new = length (map fst es)" by simp
    also have "\<dots> \<le> length (enumerate_list chunks)"
      using sub by (rule list_emb_length)
    finally have s3: "length ?new \<le> chunk_total fs enc m path"
      by (simp add: chunk_total_def Some)
    from pv' s1 s2 s3 show ?thesis by blast
  qed
qed

lemma process_file_calls:
  assumes "process_file sv fs enc m path pv st = Some (pv', st')"
  shows "calls st' = calls st @ map doc_call (all_chunks fs enc m [path])"
proof -
  obtain doc_text st2 where
    ex: "extract_pdf_text fs path (print (''Processing: '' @ basename path) st) = (doc_text, st2)"
    by (cases "extract_pdf_text fs path (print (''Processing: '' @ basename path) st)")
  from ex have c2: "calls st2 = calls st"
    using extract_pdf_text_calls [of fs path "print (''Processing: '' @ basename path) st"] by simp
  from ex have dt: "doc_text = (case read_pdf fs path of Inl e \<Rightarrow> [] | Inr t \<Rightarrow> t)"
    using extract_pdf_text_fst [of fs path "print (''Processing: '' @ basename path) st"] by simp
  show ?thesis
  proof (cases "doc_text = []")
    case True
    with assms ex have "st' = print (''Skipping '' @ basename path @ '' - no text extracted'') st2"
      by (simp add: process_file_def Let_def)
    moreover from True dt have "document_chunks fs enc m path = Some []"
      by (auto simp: document_chunks_def split: sum.splits)
    ultimately show ?thesis
      using c2 by (simp add: all_chunks_def)
  next
    case False
    with assms ex obtain chunks where ch: "chunk_text_by_tokens enc doc_text m 200 = Some chunks"
      by (cases "chunk_text_by_tokens enc doc_text m 200") (simp_all add: process_file_def Let_def)
    let ?st3 = "print (''  Created '' @ str_int (int (length chunks)) @ '' chunks'') st2"
    from assms ex False ch
    have res: "embed_chunks sv (basename path) chunks (enumerate_list chunks) pv ?st3 = (pv', st')"
      by (simp add: process_file_def Let_def)
    from False dt ch have "document_chunks fs enc m path = Some chunks"
      by (auto simp: document_chunks_def split: sum.splits)
    moreover from embed_chunks_calls [of sv "basename path" chunks "enumerate_list chunks" pv ?st3] res c2
    have "calls st' = calls st @ map doc_call chunks"
      by (simp add: map_map [symmetric] del: map_map)
    ultimately show ?thesis
      by (simp add: all_chunks_def)
  qed
qed

subsection \<open>The loop over the documents\<close>

lemma all_chunks_Cons:
  "all_chunks fs enc m (p # ps) = all_chunks fs enc m [p] @ all_chunks fs enc m ps"
  by (simp add: all_chunks_def)

lemma expected_ids_Cons:
  "expected_ids fs enc m (p # ps) = document_ids fs enc m p @ expected_ids fs enc m ps"
  by (simp add: expected_ids_def)


lemma process_files_calls:
  "process_files sv fs enc m paths pv st = Some (pv', st') \<Longrightarrow>
     calls st' = calls st @ map doc_call (all_chunks fs enc m paths)"
proof (induction paths arbitrary: pv st)
  case Nil
  then show ?case by (simp add: all_chunks_def)
next
  case (Cons p ps)
  from Cons.prems obtain pv1 st1 where
    one: "process_file sv fs enc m p pv st = Some (pv1, st1)"
    and rest: "process_files sv fs enc m ps pv1 st1 = Some (pv', st')"
    by (auto split: option.splits)
  from process_file_calls [OF one] Cons.IH [OF rest] show ?case
    by (simp add: all_chunks_Cons [of fs enc m p ps])
qed

lemma process_files_vectors:
  "process_files sv fs enc m paths pv st = Some (pv', st') \<Longrightarrow>
     \<exists>new. pv' = pv @ new
       \<and> subseq (map vec_id new) (expected_ids fs enc m paths)
       \<and> list_all (\<lambda>r. list_ex (\<lambda>p. record_of_chunk fs enc m p r) paths) new"
proof (induction paths arbitrary: pv st)
  case Nil
  then show ?case by (simp add: expected_ids_def)
next
  case (Cons p ps)
  from Cons.prems obtain pv1 st1 where
    one: "process_file sv fs enc m p pv st = Some (pv1, st1)"
    and rest: "process_files sv fs enc m ps pv1 st1 = Some (pv', st')"
    by (auto split: option.splits)
  from process_file_vectors [OF one] obtain new1 where
    n1: "pv1 = pv @ new1" "subseq (map vec_id new1) (document_ids fs enc m p)"
      "list_all (record_of_chunk fs enc m p) new1"
    by blast
  from Cons.IH [OF rest] obtain new2 where
    n2: "pv' = pv1 @ new2" "subseq (map vec_id new2) (expected_ids fs enc m ps)"
      "list_all (\<lambda>r. list_ex (\<lambda>p. record_of_chunk fs enc m p r) ps) new2"
    by blast
  show ?case
  proof (intro exI [of _ "new1 @ new2"] conjI)
    show "pv' = pv @ new1 @ new2" using n1(1) n2(1) by simp
    show "subseq (map vec_id (new1 @ new2)) (expected_ids fs enc m (p # ps))"
      using n1(2) n2(2) by (simp add: expected_ids_Cons list_emb_append_mono)
    show "list_all (\<lambda>r. list_ex (\<lambda>p. record_of_chunk fs enc m p r) (p # ps)) (new1 @ new2)"
      using n1(3) n2(3) by (auto simp: list_all_iff)
  qed
qed

lemma process_files_returns:
  assumes "200 < m"
  shows "\<exists>res. process_files sv fs enc m paths pv st = Some res"
proof (induction paths arbitrary: pv st)
  case Nil
  show ?case by simp
next
  case (Cons p ps)
  have "document_chunks fs enc m p \<noteq> None"
    using chunk_text_returns [OF assms] by (auto simp: document_chunks_def split: sum.splits)
  then obtain r where "process_file sv fs enc m p pv st = Some r"
    using process_file_None [of sv fs enc m p pv st] by (cases "process_file sv fs enc m p pv st") auto
  with Cons.IH show ?case
    by (cases r) simp
qed

subsection \<open>The whole ingestion\<close>

lemma process_pdfs_calls:
  assumes "process_pdfs_to_vectors sv fs enc pdf_pattern m st = Some (vs, st')"
  shows "new_calls st st' = map doc_call (all_chunks fs enc m (glob fs pdf_pattern))"
proof (cases "glob fs pdf_pattern = []")
  case True
  with assms have "calls st' = calls st @ []"
    by (auto simp: process_pdfs_to_vectors_def)
  with True show ?thesis by (simp add: new_calls_app all_chunks_def)
next
  case False
  with assms have "calls st' = calls st @ map doc_call (all_chunks fs enc m (glob fs pdf_pattern))"
    by (auto simp: process_pdfs_to_vectors_def Let_def dest!: process_files_calls)
  then show ?thesis by (rule new_calls_app)
qed

lemma process_pdfs_vectors:
  assumes "process_pdfs_to_vectors sv fs enc pdf_pattern m st = Some (vs, st')"
  shows "subseq (map vec_id vs) (expected_ids fs enc m (glob fs pdf_pattern))
    \<and> list_all (\<lambda>r. list_ex (\<lambda>p. record_of_chunk fs enc m p r) (glob fs pdf_pattern)) vs"
proof (cases "glob fs pdf_pattern = []")
  case True
  with assms show ?thesis
    by (auto simp: process_pdfs_to_vectors_def)
next
  case False
  with assms show ?thesis
    by (auto simp: process_pdfs_to_vectors_def Let_def dest!: process_files_vectors)
qed

lemma process_pdfs_returns:
  assumes "200 < m"
  shows "\<exists>res. process_pdfs_to_vectors sv fs enc pdf_pattern m st = Some res"
proof (cases "glob fs pdf_pattern = []")
  case True
  then show ?thesis by (simp add: process_pdfs_to_vectors_def)
next
  case False
  then show ?thesis
    using process_files_returns [OF assms, of sv fs enc "glob fs pdf_pattern" "[]"]
    by (simp add: process_pdfs_to_vectors_def Let_def)
qed

subsection \<open>Intents of the embedding calls\<close>

lemma embed_intents_append: "embed_intents (xs @ ys) = embed_intents xs @ embed_intents ys"
  by (induction xs rule: embed_intents.induct) simp_all

lemma embed_intents_doc_calls:
  "embed_intents (map doc_call chunks) = replicate (length chunks) ''search_document''"
  by (induction chunks) (simp_all add: doc_call_def)

lemma embed_text_intents:
  "embed_intents (new_calls st (snd (embed_text sv text st))) = [''search_document'']"
  by (simp add: new_calls_app [OF embed_text_calls] doc_call_def)

lemma embed_query_intents:
  "embed_intents (new_calls st (snd (embed_query sv text st))) = [''search_query'']"
  by (simp add: new_calls_app [OF embed_query_calls])

lemma search_policies_intents:
  "embed_intents (new_calls st (snd (search_policies sv query top_k st))) = [''search_query'']"
  by (auto simp: search_policies_def embed_query_def try_defs new_calls_def
      split: prod.splits sum.splits list.splits)

lemma search_helper_intents:
  "embed_intents (new_calls st (snd (search_helper_search_faq sv query top_k st))) = [''search_query'']"
  by (auto simp: search_helper_search_faq_def search_helper_try_def try_defs new_calls_def
      split: prod.splits sum.splits list.splits)

lemma api_server_intents:
  "embed_intents (new_calls st (snd (api_server_search_faq sv lib (SearchQuery query top_k) st)))
     = [''search_query'']"
  by (auto simp: api_server_search_faq_def try_defs new_calls_def
      split: prod.splits sum.splits list.splits)

lemma api_vercel_intents:
  "embed_intents (new_calls st (snd (api_vercel_search_faq sv query st)))
     = (if query = [] then [] else [''search_query''])"
  by (auto simp: api_vercel_search_faq_def api_vercel_try_def try_defs new_calls_def
      split: prod.splits sum.splits list.splits)

lemma openai_agent_intents:
  "embed_intents (new_calls st (snd (openai_agent_search_faq sv lib query top_k st))) = [''search_query'']"
  by (auto simp: openai_agent_search_faq_def openai_agent_try_def try_defs new_calls_def
      split: prod.splits sum.splits list.splits)

lemma call_tool_intents:
  "embed_intents (new_calls st (snd (call_tool sv lib name arguments st)))
     = (if name = ''search_faq'' \<and> map_of arguments ''query'' \<notin> {None, Some []}
        then [''search_query''] else [])"
  by (auto simp: call_tool_def call_tool_try_def try_defs new_calls_def Let_def
      split: prod.splits sum.splits list.splits option.splits)

text \<open>
  Claim C7: every embedding call of the ingestion (\<open>embed_text\<close>, and through it
  \<open>process_pdfs_to_vectors\<close>, one call per chunk) passes \<^verbatim>\<open>input_type="search_document"\<close>,
  and every embedding call of a retrieval function passes \<^verbatim>\<open>input_type="search_query"\<close>:
  \<open>embed_query\<close> and \<open>search_policies\<close> of vector\_db.py, \<open>search_faq\<close> of
  search\_helper.py, api\_server.py, api\_vercel.py and openai\_agent.py, and \<open>call_tool\<close> of
  faq.py and faq2.py. A retrieval function issues exactly one embedding call, or none
  where it rejects the request before.
\<close>

theorem embedding_intents:
  "embed_intents (new_calls st (snd (embed_text sv text st))) = [''search_document'']
   \<and> (process_pdfs_to_vectors sv fs enc pdf_pattern max_chunk_tokens st = Some (vs, st') \<longrightarrow>
        embed_intents (new_calls st st')
          = replicate (length (all_chunks fs enc max_chunk_tokens (glob fs pdf_pattern))) ''search_document'')
   \<and> embed_intents (new_calls st (snd (embed_query sv text st))) = [''search_query'']
   \<and> embed_intents (new_calls st (snd (search_policies sv query top_k st))) = [''search_query'']
   \<and> embed_intents (new_calls st (snd (search_helper_search_faq sv query top_k st))) = [''search_query'']
   \<and> embed_intents (new_calls st (snd (api_server_search_faq sv lib (SearchQuery query top_k) st)))
        = [''search_query'']
   \<and> embed_intents (new_calls st (snd (api_vercel_search_faq sv query st)))
        = (if query = [] then [] else [''search_query''])
   \<and> embed_intents (new_calls st (snd (openai_agent_search_faq sv lib query top_k st))) = [''search_query'']
   \<and> embed_intents (new_calls st (snd (faq_call_tool sv lib name arguments st)))
        = (if name = ''search_faq'' \<and> map_of arguments ''query'' \<notin> {None, Some []}
           then [''search_query''] else [])
   \<and> embed_intents (new_calls st (snd (faq2_call_tool sv lib name arguments st)))
        = (if name = ''search_faq'' \<and> map_of arguments ''query'' \<notin> {None, Some []}
           then [''search_query''] else [])"
proof -
  have "embed_intents (new_calls st st')
          = replicate (length (all_chunks fs enc max_chunk_tokens (glob fs pdf_pattern))) ''search_document''"
    if "process_pdfs_to_vectors sv fs enc pdf_pattern max_chunk_tokens st = Some (vs, st')"
    by (simp only: process_pdfs_calls [OF that] embed_intents_doc_calls)
  then have "process_pdfs_to_vectors sv fs enc pdf_pattern max_chunk_tokens st = Some (vs, st') \<longrightarrow>
        embed_intents (new_calls st st')
          = replicate (length (all_chunks fs enc max_chunk_tokens (glob fs pdf_pattern))) ''search_document''"
    by blast
  then show ?thesis
    by (simp only: embed_text_intents embed_query_intents search_policies_intents
        search_helper_intents api_server_intents api_vercel_intents openai_agent_intents
        call_tool_intents faq_call_tool_def faq2_call_tool_def simp_thms)
qed

text \<open>An ingestion of the three example documents, and one direct retrieval call.\<close>

theorem embedding_intents_witness:
  "map_option (\<lambda>(vs, st'). embed_intents (new_calls (init_state ()) st'))
     (process_pdfs_to_vectors up_services example_files char_encoding ''policies/*.pdf'' 6000 (init_state ()))
     = Some [''search_document'', ''search_document'']
   \<and> embed_intents (new_calls (init_state ())
        (snd (search_helper_search_faq up_services ''What is the refund policy?'' 3 (init_state ()))))
     = [''search_query'']"
proof -
  obtain vs st' where run: "process_pdfs_to_vectors up_services example_files char_encoding
      ''policies/*.pdf'' 6000 (init_state ()) = Some (vs, st')"
    using process_pdfs_returns [of 6000 up_services example_files char_encoding "''policies/*.pdf''"
        "init_state ()"] by auto
  have n: "length (all_chunks example_files char_encoding 6000 (glob example_files ''policies/*.pdf'')) = 2"
    by code_simp
  from embedding_intents [of "init_state ()" up_services _ example_files char_encoding
      "''policies/*.pdf''" 6000 vs st' "''What is the refund policy?''" 3] run n
  show ?thesis
    by (simp add: numeral_2_eq_2)
qed

subsection \<open>A document that cannot be read\<close>



subsection \<open>The recorded total and the records created\<close>

lemma process_file_returns:
  assumes "200 < m"
  shows "\<exists>res. process_file sv fs enc m p pv st = Some res"
proof -
  have "document_chunks fs enc m p \<noteq> None"
    using chunk_text_returns [OF assms] by (auto simp: document_chunks_def split: sum.splits)
  then show ?thesis
    using process_file_None [of sv fs enc m p pv st] by (cases "process_file sv fs enc m p pv st") auto
qed

lemma record_of_chunk_total:
  "record_of_chunk fs enc m p r \<Longrightarrow>
     meta_str r ''source'' = basename p \<and> meta_int r ''total_chunks'' = int (chunk_total fs enc m p)"
  by (auto simp: record_of_chunk_def chunk_total_def split: option.splits)

lemma record_of_chunk_id:
  "record_of_chunk fs enc m p r \<Longrightarrow>
     vec_id r = fst (splitext (meta_str r ''source'')) @ ''-chunk-'' @ str_int (meta_int r ''chunk_index'')"
  by (auto simp: record_of_chunk_def split: option.splits)

text \<open>
  Claim C10: every record that the ingestion adds for a document carries, as
  \<^verbatim>\<open>total_chunks\<close>, the number of chunks the chunker produced for that document, whether
  or not the other chunks were embedded; the records added for a document are at most
  that many, and they can be fewer: with an embedding service that fails on every second
  call, a document of four chunks gets two records, each with \<^verbatim>\<open>total_chunks = 4\<close>.
\<close>

theorem total_chunks_recorded:
  "(process_file sv fs enc m path pv st = Some (pv', st') \<longrightarrow>
      take (length pv) pv' = pv
      \<and> list_all (\<lambda>r. meta_int r ''total_chunks'' = int (chunk_total fs enc m path))
           (drop (length pv) pv')
      \<and> length pv' - length pv \<le> chunk_total fs enc m path)
   \<and> (process_pdfs_to_vectors sv fs enc pdf_pattern m st = Some (vs, st') \<longrightarrow>
      list_all (\<lambda>r. list_ex (\<lambda>p. meta_str r ''source'' = basename p
                   \<and> meta_int r ''total_chunks'' = int (chunk_total fs enc m p))
                 (glob fs pdf_pattern)) vs)
   \<and> (case process_file flaky_services example_files char_encoding 210 ''policies/refund.pdf'' []
              (init_state 0) of
         None \<Rightarrow> False
       | Some (pv2, st2) \<Rightarrow>
           length pv2 = 2 \<and> chunk_total example_files char_encoding 210 ''policies/refund.pdf'' = 4)"
proof (intro conjI impI)
  assume "process_file sv fs enc m path pv st = Some (pv', st')"
  from process_file_vectors [OF this] obtain new where
    new: "pv' = pv @ new" "list_all (record_of_chunk fs enc m path) new"
      "length new \<le> chunk_total fs enc m path"
    by blast
  from new(1) show "take (length pv) pv' = pv" by simp
  from new(1,2) show "list_all (\<lambda>r. meta_int r ''total_chunks'' = int (chunk_total fs enc m path))
           (drop (length pv) pv')"
    by (auto simp: list_all_iff dest: record_of_chunk_total)
  from new(1,3) show "length pv' - length pv \<le> chunk_total fs enc m path" by simp
next
  assume "process_pdfs_to_vectors sv fs enc pdf_pattern m st = Some (vs, st')"
  from process_pdfs_vectors [OF this]
  have "list_all (\<lambda>r. list_ex (\<lambda>p. record_of_chunk fs enc m p r) (glob fs pdf_pattern)) vs"
    by simp
  then show "list_all (\<lambda>r. list_ex (\<lambda>p. meta_str r ''source'' = basename p
                   \<and> meta_int r ''total_chunks'' = int (chunk_total fs enc m p))
                 (glob fs pdf_pattern)) vs"
    by (auto simp: list_all_iff list_ex_iff dest: record_of_chunk_total)
next
  show "case process_file flaky_services example_files char_encoding 210 ''policies/refund.pdf'' []
              (init_state 0) of
         None \<Rightarrow> False
       | Some (pv2, st2) \<Rightarrow>
           length pv2 = 2 \<and> chunk_total example_files char_encoding 210 ''policies/refund.pdf'' = 4"
    by code_simp
qed

text \<open>The example documents with a window of 210 tokens and the failing embedding service.\<close>

theorem total_chunks_recorded_witness:
  "map_option (\<lambda>(pv', st'). map (\<lambda>r. (vec_id r, meta_int r ''total_chunks'')) pv')
      (process_file flaky_services example_files char_encoding 210 ''policies/refund.pdf'' [] (init_state 0))
     = Some [(''refund-chunk-0'', 4), (''refund-chunk-2'', 4)]
   \<and> chunk_total example_files char_encoding 210 ''policies/refund.pdf'' = 4
   \<and> map_option (\<lambda>(vs, st'). map (\<lambda>r. (meta_str r ''source'', meta_int r ''total_chunks'')) vs)
      (process_pdfs_to_vectors flaky_services example_files char_encoding ''policies/*.pdf'' 210 (init_state 0))
     = Some [(''refund.pdf'', 4), (''refund.pdf'', 4), (''delivery.pdf'', 3), (''delivery.pdf'', 3)]"
proof -
  obtain pv' st' where one: "process_file flaky_services example_files char_encoding 210
      ''policies/refund.pdf'' [] (init_state 0) = Some (pv', st')"
    using process_file_returns [of 210 flaky_services example_files char_encoding
        "''policies/refund.pdf''" "[]" "init_state 0"] by auto
  obtain vs st'' where run: "process_pdfs_to_vectors flaky_services example_files char_encoding
      ''policies/*.pdf'' 210 (init_state 0) = Some (vs, st'')"
    using process_pdfs_returns [of 210 flaky_services example_files char_encoding "''policies/*.pdf''"
        "init_state 0"] by auto
  have ids: "map_option (\<lambda>(pv', st'). map vec_id pv')
      (process_file flaky_services example_files char_encoding 210 ''policies/refund.pdf'' [] (init_state 0))
     = Some [''refund-chunk-0'', ''refund-chunk-2'']"
    by code_simp
  have tot: "chunk_total example_files char_encoding 210 ''policies/refund.pdf'' = 4"
    by code_simp
  have srcs: "map_option (\<lambda>(vs, st'). map (\<lambda>r. meta_str r ''source'') vs)
      (process_pdfs_to_vectors flaky_services example_files char_encoding ''policies/*.pdf'' 210 (init_state 0))
     = Some [''refund.pdf'', ''refund.pdf'', ''delivery.pdf'', ''delivery.pdf'']"
    by code_simp
  have tots: "chunk_total example_files char_encoding 210 ''policies/delivery.pdf'' = 3"
    "chunk_total example_files char_encoding 210 ''policies/broken.pdf'' = 0"
    by code_simp+
  have names: "basename ''policies/refund.pdf'' = ''refund.pdf''"
    "basename ''policies/delivery.pdf'' = ''delivery.pdf''"
    "basename ''policies/broken.pdf'' = ''broken.pdf''"
    by (simp_all add: basename_def)
  have glob: "glob example_files ''policies/*.pdf''
      = [''policies/refund.pdf'', ''policies/broken.pdf'', ''policies/delivery.pdf'']"
    by (simp add: example_files_def)
  note thm1 = total_chunks_recorded [of flaky_services example_files char_encoding 210
      "''policies/refund.pdf''" "[]" "init_state 0" pv' st' "''policies/*.pdf''" vs]
  from thm1 one have a: "list_all (\<lambda>r. meta_int r ''total_chunks'' = 4) pv'"
    by (simp add: tot)
  from ids one have b: "map vec_id pv' = [''refund-chunk-0'', ''refund-chunk-2'']"
    by simp
  from a b have first: "map (\<lambda>r. (vec_id r, meta_int r ''total_chunks'')) pv'
      = [(''refund-chunk-0'', 4), (''refund-chunk-2'', 4)]"
    by (auto simp: list_all_iff map_eq_Cons_conv)
  note thm2 = total_chunks_recorded [of flaky_services example_files char_encoding 210
      "''policies/refund.pdf''" "[]" "init_state 0" pv' st'' "''policies/*.pdf''" vs]
  from thm2 run have c: "list_all (\<lambda>r. list_ex (\<lambda>p. meta_str r ''source'' = basename p
                   \<and> meta_int r ''total_chunks'' = int (chunk_total example_files char_encoding 210 p))
                 (glob example_files ''policies/*.pdf'')) vs"
    by simp
  from srcs run have d: "map (\<lambda>r. meta_str r ''source'') vs
      = [''refund.pdf'', ''refund.pdf'', ''delivery.pdf'', ''delivery.pdf'']"
    by simp
  from c d have second: "map (\<lambda>r. (meta_str r ''source'', meta_int r ''total_chunks'')) vs
      = [(''refund.pdf'', 4), (''refund.pdf'', 4), (''delivery.pdf'', 3), (''delivery.pdf'', 3)]"
    unfolding glob by (auto simp: list_all_iff map_eq_Cons_conv names tot tots)
  from first second one run tot show ?thesis by simp
qed

subsection \<open>Record ids\<close>

text \<open>
  Claim C6: the id of every record is the file name without extension, \<^verbatim>\<open>-chunk-\<close> and
  the chunk index, both as recorded in its metadata. The ids of a run are a subsequence
  of the ids of all chunks of the documents, which depend on the documents and the
  chunking parameter only, not on the services or the state of the run. So in two
  ingestions of the same documents with the same parameter the records of the same
  chunk of the same file have the same id, all ids come from the same list, and two
  ingestions that embed every chunk produce the same ids.
\<close>

theorem record_ids_deterministic:
  "(process_pdfs_to_vectors sv fs enc pdf_pattern m st = Some (vs, st') \<longrightarrow>
      list_all (\<lambda>r. vec_id r = fst (splitext (meta_str r ''source'')) @ ''-chunk-''
                        @ str_int (meta_int r ''chunk_index'')) vs
      \<and> subseq (map vec_id vs) (expected_ids fs enc m (glob fs pdf_pattern)))
   \<and> (process_pdfs_to_vectors sv fs enc pdf_pattern m st = Some (vs, st')
        \<and> process_pdfs_to_vectors sv2 fs enc pdf_pattern m st2 = Some (vs2, st2') \<longrightarrow>
      list_all (\<lambda>r1. list_all (\<lambda>r2.
          meta_str r1 ''source'' = meta_str r2 ''source''
          \<and> meta_int r1 ''chunk_index'' = meta_int r2 ''chunk_index'' \<longrightarrow> vec_id r1 = vec_id r2) vs2) vs
      \<and> set (map vec_id vs) \<union> set (map vec_id vs2)
           \<subseteq> set (expected_ids fs enc m (glob fs pdf_pattern)))
   \<and> (process_pdfs_to_vectors sv fs enc pdf_pattern m st = Some (vs, st')
        \<and> process_pdfs_to_vectors sv2 fs enc pdf_pattern m st2 = Some (vs2, st2')
        \<and> length vs = length (expected_ids fs enc m (glob fs pdf_pattern))
        \<and> length vs2 = length (expected_ids fs enc m (glob fs pdf_pattern)) \<longrightarrow>
      map vec_id vs = map vec_id vs2)"
proof (intro conjI impI)
  assume run: "process_pdfs_to_vectors sv fs enc pdf_pattern m st = Some (vs, st')"
  from process_pdfs_vectors [OF run]
  have "\<forall>r\<in>set vs. \<exists>p\<in>set (glob fs pdf_pattern). record_of_chunk fs enc m p r"
    by (simp add: list_all_iff list_ex_iff)
  then have "\<forall>r\<in>set vs. vec_id r = fst (splitext (meta_str r ''source'')) @ ''-chunk-''
                        @ str_int (meta_int r ''chunk_index'')"
    using record_of_chunk_id by blast
  then show "list_all (\<lambda>r. vec_id r = fst (splitext (meta_str r ''source'')) @ ''-chunk-''
                        @ str_int (meta_int r ''chunk_index'')) vs"
    by (simp only: list_all_iff)
  from process_pdfs_vectors [OF run]
  show "subseq (map vec_id vs) (expected_ids fs enc m (glob fs pdf_pattern))"
    by simp
next
  assume two: "process_pdfs_to_vectors sv fs enc pdf_pattern m st = Some (vs, st')
        \<and> process_pdfs_to_vectors sv2 fs enc pdf_pattern m st2 = Some (vs2, st2')"
  from two process_pdfs_vectors [of sv fs enc pdf_pattern m st vs st']
  have a1: "\<forall>r\<in>set vs. \<exists>p\<in>set (glob fs pdf_pattern). record_of_chunk fs enc m p r"
    and s1: "subseq (map vec_id vs) (expected_ids fs enc m (glob fs pdf_pattern))"
    by (simp_all add: list_all_iff list_ex_iff)
  from two process_pdfs_vectors [of sv2 fs enc pdf_pattern m st2 vs2 st2']
  have a2: "\<forall>r\<in>set vs2. \<exists>p\<in>set (glob fs pdf_pattern). record_of_chunk fs enc m p r"
    and s2: "subseq (map vec_id vs2) (expected_ids fs enc m (glob fs pdf_pattern))"
    by (simp_all add: list_all_iff list_ex_iff)
  have "vec_id r1 = vec_id r2"
    if "r1 \<in> set vs" "r2 \<in> set vs2" "meta_str r1 ''source'' = meta_str r2 ''source''"
      "meta_int r1 ''chunk_index'' = meta_int r2 ''chunk_index''" for r1 r2
  proof -
    from a1 that(1) obtain p1 where "record_of_chunk fs enc m p1 r1" by blast
    from record_of_chunk_id [OF this]
    have i1: "vec_id r1 = fst (splitext (meta_str r1 ''source'')) @ ''-chunk-''
        @ str_int (meta_int r1 ''chunk_index'')" .
    from a2 that(2) obtain p2 where "record_of_chunk fs enc m p2 r2" by blast
    from record_of_chunk_id [OF this]
    have i2: "vec_id r2 = fst (splitext (meta_str r2 ''source'')) @ ''-chunk-''
        @ str_int (meta_int r2 ''chunk_index'')" .
    from that(3,4) show ?thesis unfolding i1 i2 by (rule arg_cong2)
  qed
  then show "list_all (\<lambda>r1. list_all (\<lambda>r2.
          meta_str r1 ''source'' = meta_str r2 ''source''
          \<and> meta_int r1 ''chunk_index'' = meta_int r2 ''chunk_index'' \<longrightarrow> vec_id r1 = vec_id r2) vs2) vs"
    unfolding list_all_iff by blast
  have sub: "set xs \<subseteq> set ys" if "subseq xs ys" for xs ys :: "string list"
  proof
    fix x assume "x \<in> set xs"
    from list_emb_set [OF that this] show "x \<in> set ys" by metis
  qed
  from sub [OF s1] sub [OF s2]
  show "set (map vec_id vs) \<union> set (map vec_id vs2)
           \<subseteq> set (expected_ids fs enc m (glob fs pdf_pattern))"
    by blast
next
  assume both: "process_pdfs_to_vectors sv fs enc pdf_pattern m st = Some (vs, st')
        \<and> process_pdfs_to_vectors sv2 fs enc pdf_pattern m st2 = Some (vs2, st2')
        \<and> length vs = length (expected_ids fs enc m (glob fs pdf_pattern))
        \<and> length vs2 = length (expected_ids fs enc m (glob fs pdf_pattern))"
  let ?ids = "expected_ids fs enc m (glob fs pdf_pattern)"
  from both have "subseq (map vec_id vs) ?ids" and "length (map vec_id vs) = length ?ids"
    using process_pdfs_vectors [of sv fs enc pdf_pattern m st vs st'] by simp_all
  then have "map vec_id vs = ?ids" by (rule subseq_same_length)
  moreover from both have "subseq (map vec_id vs2) ?ids" and "length (map vec_id vs2) = length ?ids"
    using process_pdfs_vectors [of sv2 fs enc pdf_pattern m st2 vs2 st2'] by simp_all
  then have "map vec_id vs2 = ?ids" by (rule subseq_same_length)
  ultimately show "map vec_id vs = map vec_id vs2" by simp
qed

text \<open>
  The example documents ingested twice with different services, and once with a service
  that fails on the first document.
\<close>

theorem record_ids_deterministic_witness:
  "expected_ids example_files char_encoding 6000 (glob example_files ''policies/*.pdf'')
     = [''refund-chunk-0'', ''delivery-chunk-0'']
   \<and> map_option (\<lambda>(vs, st'). map vec_id vs)
        (process_pdfs_to_vectors up_services example_files char_encoding ''policies/*.pdf'' 6000 (init_state ()))
     = Some [''refund-chunk-0'', ''delivery-chunk-0'']
   \<and> map_option (\<lambda>(vs, st'). map vec_id vs)
        (process_pdfs_to_vectors flaky_services example_files char_encoding ''policies/*.pdf'' 6000 (init_state 1))
     = Some [''delivery-chunk-0'']
   \<and> map_option (\<lambda>(vs, st'). map vec_id vs)
        (process_pdfs_to_vectors index_down_services example_files char_encoding ''policies/*.pdf'' 6000
          (init_state ()))
     = map_option (\<lambda>(vs, st'). map vec_id vs)
        (process_pdfs_to_vectors up_services example_files char_encoding ''policies/*.pdf'' 6000 (init_state ()))"
proof -
  obtain vs st' where run1: "process_pdfs_to_vectors up_services example_files char_encoding
      ''policies/*.pdf'' 6000 (init_state ()) = Some (vs, st')"
    using process_pdfs_returns [of 6000 up_services example_files char_encoding "''policies/*.pdf''"
        "init_state ()"] by auto
  obtain vs2 st2' where run2: "process_pdfs_to_vectors index_down_services example_files char_encoding
      ''policies/*.pdf'' 6000 (init_state ()) = Some (vs2, st2')"
    using process_pdfs_returns [of 6000 index_down_services example_files char_encoding "''policies/*.pdf''"
        "init_state ()"] by auto
  have ids: "expected_ids example_files char_encoding 6000 (glob example_files ''policies/*.pdf'')
     = [''refund-chunk-0'', ''delivery-chunk-0'']"
    by code_simp
  have len1: "map_option (\<lambda>(vs, st'). length vs)
        (process_pdfs_to_vectors up_services example_files char_encoding ''policies/*.pdf'' 6000 (init_state ()))
     = Some 2"
    by code_simp
  have len2: "map_option (\<lambda>(vs, st'). length vs)
        (process_pdfs_to_vectors index_down_services example_files char_encoding ''policies/*.pdf'' 6000
          (init_state ()))
     = Some 2"
    by code_simp
  have flaky: "map_option (\<lambda>(vs, st'). map vec_id vs)
        (process_pdfs_to_vectors flaky_services example_files char_encoding ''policies/*.pdf'' 6000 (init_state 1))
     = Some [''delivery-chunk-0'']"
    by code_simp
  note det = record_ids_deterministic [of up_services example_files char_encoding "''policies/*.pdf''" 6000
      "init_state ()" vs st' index_down_services "init_state ()" vs2 st2']
  from len1 run1 have l1: "length vs = 2" by simp
  from len2 run2 have l2: "length vs2 = 2" by simp
  from det run1 have "subseq (map vec_id vs) [''refund-chunk-0'', ''delivery-chunk-0'']"
    by (simp add: ids)
  moreover from l1 have "length (map vec_id vs) = length [''refund-chunk-0'', ''delivery-chunk-0'']"
    by simp
  ultimately have first: "map vec_id vs = [''refund-chunk-0'', ''delivery-chunk-0'']"
    by (rule subseq_same_length)
  from det run1 run2 l1 l2 have same: "map vec_id vs = map vec_id vs2"
    by (simp add: ids)
  from first same run1 run2 ids flaky show ?thesis by simp
qed

section \<open>Properties of the batched upsert\<close>

subsection \<open>The batches\<close>

text \<open>
  For a positive batch size \<open>b\<close> the slices \<^verbatim>\<open>vectors[i:i+b]\<close> at the start indices
  of \<^verbatim>\<open>range(0, len(vectors), b)\<close> are the batches \<open>batches_of vectors b\<close>: non-empty,
  of at most \<open>b\<close> vectors, and together the vectors given.
\<close>

lemma py_slice_batch:
  assumes "0 < b" 
  shows "py_slice xs (int k * int b) (int k * int b + int b) = take b (drop (k * b) xs)"
proof -
  have lo: "py_clamp (length xs) (int k * int b) = min (k * b) (length xs)"
    by (simp add: py_clamp_def min_def nat_mult_distrib flip: of_nat_mult)
  have "int k * int b + int b = int (k * b + b)" by simp
  then have hi: "py_clamp (length xs) (int k * int b + int b) = min (k * b + b) (length xs)"
    by (simp add: py_clamp_def min_def del: of_nat_add of_nat_mult)
  show ?thesis
    unfolding py_slice_def py_slice_bounds_def slice_of_def lo hi fst_conv snd_conv
    by (cases "k * b \<le> length xs") (auto simp: min_def)
qed

lemma concat_batches_take:
  "concat (map (\<lambda>k. take b (drop (k * b) xs)) [0..<m]) = take (m * b) xs"
proof (induction m)
  case 0
  show ?case by simp
next
  case (Suc m)
  have "take (m * b) xs @ take b (drop (m * b) xs) = take (m * b + b) xs"
    by (simp add: take_add)
  with Suc show ?case by (simp add: add.commute)
qed

lemma batches_cover:
  assumes "0 < b"
  shows "length xs \<le> ((length xs + b - 1) div b) * b"
proof -
  have "(length xs + b - 1) mod b < b" using assms by simp
  moreover have "length xs + b - 1 = ((length xs + b - 1) div b) * b + (length xs + b - 1) mod b"
    by simp
  ultimately show ?thesis using assms by linarith
qed

lemma concat_batches_of:
  assumes "0 < b"
  shows "concat (batches_of xs b) = xs"
  unfolding batches_of_def concat_batches_take
  using batches_cover [OF assms, of xs] by simp

lemma batches_of_sizes:
  assumes "0 < b"
  shows "list_all (\<lambda>batch. batch \<noteq> [] \<and> length batch \<le> b) (batches_of xs b)"
proof -
  have "k * b < length xs" if "k < (length xs + b - 1) div b" for k
  proof -
    from that have "Suc k \<le> (length xs + b - 1) div b" by simp
    then have "Suc k * b \<le> ((length xs + b - 1) div b) * b" by (rule mult_le_mono1)
    also have "\<dots> \<le> length xs + b - 1" by simp
    finally show ?thesis using assms by simp
  qed
  then have "take b (drop (k * b) xs) \<noteq> [] \<and> length (take b (drop (k * b) xs)) \<le> b"
    if "k < (length xs + b - 1) div b" for k
    using that assms by fastforce
  then show ?thesis
    unfolding batches_of_def list_all_iff by (simp del: One_nat_def)
qed

subsection \<open>The loop over the batches\<close>

text \<open>
  The loop issues one upsert for every start index and prints one line for it, whatever
  the index answered before.
\<close>

lemma upsert_batches_trace:
  "calls (upsert_batches sv vectors bs starts st)
     = calls st @ map (\<lambda>i. UpsertCall (py_slice vectors i (i + bs))) starts
   \<and> out (upsert_batches sv vectors bs starts st)
     = out st @ map (\<lambda>(i, r). upsert_line vectors bs i r)
         (zip starts (upsert_outcomes sv (map (\<lambda>i. py_slice vectors i (i + bs)) starts) (ext st)))"
proof (induction starts arbitrary: st)
  case Nil
  show ?case by simp
next
  case (Cons i starts)
  let ?batch = "py_slice vectors i (i + bs)"
  obtain r w where up: "index_upsert sv ?batch (ext st) = (r, w)"
    by (cases "index_upsert sv ?batch (ext st)")
  let ?st1 = "st\<lparr>ext := w, calls := calls st @ [UpsertCall ?batch]\<rparr>"
  have d: "do_upsert sv ?batch st = (r, ?st1)"
    by (simp add: do_upsert_def up)
  show ?case
  proof (cases r)
    case (Inl e)
    with d Cons.IH [of "print (''  Error upserting batch '' @ batch_number i bs @ '': '' @ str e) ?st1"]
    show ?thesis
      by (simp add: Let_def up upsert_line_def)
  next
    case (Inr u)
    with d Cons.IH [of "print (''  Upserted batch '' @ batch_number i bs @ ''/''
                         @ str_int ((int (length vectors) - 1) div bs + 1)) ?st1"]
    show ?thesis
      by (simp add: Let_def up upsert_line_def)
  qed
qed

lemma batch_starts:
  assumes "0 < b"
  shows "py_range 0 (int n) (int b) = Inr (map (\<lambda>k. int k * int b) [0..<(n + b - 1) div b])"
proof -
  have "(int n - 0 + int b - 1) div int b = int ((n + b - 1) div b)"
    using assms by (simp add: zdiv_int)
  then show ?thesis
    using assms by (simp add: py_range_def)
qed

lemma batch_count:
  assumes "0 < b" "0 < n"
  shows "(int n - 1) div int b + 1 = int ((n + b - 1) div b)"
proof -
  have "n + b - 1 = (n - 1) + b" using assms by simp
  then have "(n + b - 1) div b = ((n - 1) + b) div b" by (simp only:)
  also have "\<dots> = (n - 1) div b + 1"
    using assms by (simp only: div_add_self2)
  finally have "(n + b - 1) div b = (n - 1) div b + 1" .
  moreover have "(int n - 1) div int b = int ((n - 1) div b)"
    using assms by (simp add: zdiv_int)
  ultimately show ?thesis by (simp only: of_nat_add of_nat_1)
qed

lemma batch_number_start:
  assumes "0 < b"
  shows "batch_number (int k * int b) (int b) = str_int (int k + 1)"
  using assms by (simp add: batch_number_def)

lemma upsert_to_pinecone_trace:
  assumes "vectors \<noteq> []" and "0 < b"
  shows "fst (upsert_to_pinecone sv vectors (int b) st) = Inr ()"
    and "calls (snd (upsert_to_pinecone sv vectors (int b) st))
           = calls st @ map UpsertCall (batches_of vectors b)"
    and "out (snd (upsert_to_pinecone sv vectors (int b) st))
           = out st @ [''Upserting '' @ str_int (int (length vectors)) @ '' vectors in batches of ''
                         @ str_int (int b)]
               @ upsert_report sv vectors b (ext st)
               @ [check_mark @ '' Successfully inserted '' @ str_int (int (length vectors))
                    @ '' policy chunks'']"
proof -
  let ?n = "length vectors"
  let ?N = "(?n + b - 1) div b"
  let ?starts = "map (\<lambda>k. int k * int b) [0..<?N]"
  let ?st1 = "print (''Upserting '' @ str_int (int ?n) @ '' vectors in batches of '' @ str_int (int b)) st"
  have n: "0 < ?n" using assms by simp
  have range: "py_range 0 (int ?n) (int b) = Inr ?starts"
    by (rule batch_starts [OF assms(2)])
  have batches: "map (\<lambda>i. py_slice vectors i (i + int b)) ?starts = batches_of vectors b"
    by (simp add: batches_of_def py_slice_batch [OF assms(2)] comp_def)
  have len: "length (batches_of vectors b) = ?N"
    by (simp add: batches_of_def)
  have line: "upsert_line vectors (int b) (int k * int b) r = batch_line ?N k r" for k r
    by (simp add: upsert_line_def batch_line_def batch_number_start [OF assms(2)]
        batch_count [OF assms(2) n] split: sum.splits)
  have res: "upsert_to_pinecone sv vectors (int b) st =
      (Inr (), print (check_mark @ '' Successfully inserted '' @ str_int (int ?n) @ '' policy chunks'')
                 (upsert_batches sv vectors (int b) ?starts ?st1))"
    using assms(1) by (simp add: upsert_to_pinecone_def range Let_def)
  have calls_eq: "map (\<lambda>i. UpsertCall (py_slice vectors i (i + int b))) ?starts
      = map UpsertCall (batches_of vectors b)"
    by (simp only: batches [symmetric] map_map comp_def)
  note tr = upsert_batches_trace [of sv vectors "int b" ?starts ?st1, unfolded batches calls_eq]
  show "fst (upsert_to_pinecone sv vectors (int b) st) = Inr ()"
    by (simp add: res)
  show "calls (snd (upsert_to_pinecone sv vectors (int b) st))
           = calls st @ map UpsertCall (batches_of vectors b)"
    using conjunct1 [OF tr]
    by (simp add: res)
  have "map (\<lambda>(i, r). upsert_line vectors (int b) i r)
          (zip ?starts (upsert_outcomes sv (batches_of vectors b) (ext st)))
        = upsert_report sv vectors b (ext st)"
    by (simp add: upsert_report_def len zip_map1 line case_prod_beta comp_def)
  with conjunct2 [OF tr]
  show "out (snd (upsert_to_pinecone sv vectors (int b) st))
           = out st @ [''Upserting '' @ str_int (int (length vectors)) @ '' vectors in batches of ''
                         @ str_int (int b)]
               @ upsert_report sv vectors b (ext st)
               @ [check_mark @ '' Successfully inserted '' @ str_int (int (length vectors))
                    @ '' policy chunks'']"
    by (simp add: res)
qed

text \<open>
  Claim C5, as the code has it. For a positive batch size, \<open>upsert_to_pinecone\<close> issues
  one upsert per batch, for the consecutive non-empty batches of at most \<open>batch_size\<close>
  vectors that together are the vectors given, whatever the index answers to the
  earlier ones; it prints one line per batch, \<^verbatim>\<open>Upserted batch k/n\<close> or
  \<^verbatim>\<open>Error upserting batch k: <e>\<close> with the number \<open>k\<close> of the batch counted from 1,
  between a first line and a last line that do not depend on the outcomes; and it
  returns \<^verbatim>\<open>None\<close>. The outcome of the batches reaches the caller through the printed
  lines only. Without vectors it prints one line and issues no call.
\<close>

theorem upsert_batches_reported:
  "(vectors = [] \<longrightarrow>
      upsert_to_pinecone sv vectors batch_size st = (Inr (), print ''No vectors to upsert'' st))
   \<and> (vectors \<noteq> [] \<and> 0 < batch_size \<longrightarrow>
        fst (upsert_to_pinecone sv vectors batch_size st) = Inr ()
        \<and> new_calls st (snd (upsert_to_pinecone sv vectors batch_size st))
            = map UpsertCall (batches_of vectors (nat batch_size))
        \<and> concat (batches_of vectors (nat batch_size)) = vectors
        \<and> list_all (\<lambda>batch. batch \<noteq> [] \<and> int (length batch) \<le> batch_size)
             (batches_of vectors (nat batch_size))
        \<and> out (snd (upsert_to_pinecone sv vectors batch_size st))
            = out st @ [''Upserting '' @ str_int (int (length vectors)) @ '' vectors in batches of ''
                          @ str_int batch_size]
                @ upsert_report sv vectors (nat batch_size) (ext st)
                @ [check_mark @ '' Successfully inserted '' @ str_int (int (length vectors))
                     @ '' policy chunks''])"
proof (intro conjI impI)
  assume "vectors = []"
  then show "upsert_to_pinecone sv vectors batch_size st = (Inr (), print ''No vectors to upsert'' st)"
    by (simp add: upsert_to_pinecone_def)
next
  assume a: "vectors \<noteq> [] \<and> 0 < batch_size"
  define b where "b = nat batch_size"
  with a have b: "0 < b" and bs: "batch_size = int b" and ne: "vectors \<noteq> []" by simp_all
  note tr = upsert_to_pinecone_trace [OF ne b, of sv st]
  show "fst (upsert_to_pinecone sv vectors batch_size st) = Inr ()"
    unfolding bs by (rule tr(1))
  show "new_calls st (snd (upsert_to_pinecone sv vectors batch_size st))
            = map UpsertCall (batches_of vectors (nat batch_size))"
    unfolding bs using tr(2) by (simp add: new_calls_app)
  show "concat (batches_of vectors (nat batch_size)) = vectors"
    unfolding bs using concat_batches_of [OF b] by simp
  show "list_all (\<lambda>batch. batch \<noteq> [] \<and> int (length batch) \<le> batch_size)
             (batches_of vectors (nat batch_size))"
    unfolding bs using batches_of_sizes [OF b, of vectors] by simp
  show "out (snd (upsert_to_pinecone sv vectors batch_size st))
            = out st @ [''Upserting '' @ str_int (int (length vectors)) @ '' vectors in batches of ''
                          @ str_int batch_size]
                @ upsert_report sv vectors (nat batch_size) (ext st)
                @ [check_mark @ '' Successfully inserted '' @ str_int (int (length vectors))
                     @ '' policy chunks'']"
    unfolding bs using tr(3) by simp
qed

text \<open>Three vectors in batches of two, the first upsert failing.\<close>

theorem upsert_batches_reported_witness:
  "example_vectors \<noteq> [] \<and> (0::int) < 2
   \<and> fst (upsert_to_pinecone flaky_services example_vectors 2 (init_state 1)) = Inr ()
   \<and> new_calls (init_state 1) (snd (upsert_to_pinecone flaky_services example_vectors 2 (init_state 1)))
       = [UpsertCall (take 2 example_vectors), UpsertCall (drop 2 example_vectors)]
   \<and> out (snd (upsert_to_pinecone flaky_services example_vectors 2 (init_state 1)))
       = [''Upserting 3 vectors in batches of 2'',
          ''  Error upserting batch 1: timeout'',
          ''  Upserted batch 2/2'',
          check_mark @ '' Successfully inserted 3 policy chunks'']
   \<and> upsert_to_pinecone flaky_services [] 2 (init_state 1)
       = (Inr (), \<lparr>ext = 1, calls = [], out = [''No vectors to upsert'']\<rparr>)"
proof -
  have ne: "example_vectors \<noteq> []" by (simp add: example_vectors_def)
  have len: "length example_vectors = 3" by (simp add: example_vectors_def)
  have bat: "batches_of example_vectors 2 = [take 2 example_vectors, drop 2 example_vectors]"
    by code_simp
  have rep: "upsert_report flaky_services example_vectors 2 (Suc 0)
      = [''  Error upserting batch 1: timeout'', ''  Upserted batch 2/2'']"
    by code_simp
  have strs: "str_int (int (length example_vectors)) = ''3''" "str_int 2 = ''2''"
    unfolding len by code_simp+
  have init: "ext (init_state w) = w" "out (init_state w) = []" for w :: nat
    by (simp_all add: init_state_def)
  from upsert_batches_reported [of "[]" flaky_services 2 "init_state 1"]
  have empty: "upsert_to_pinecone flaky_services [] 2 (init_state 1)
       = (Inr (), \<lparr>ext = 1, calls = [], out = [''No vectors to upsert'']\<rparr>)"
    by (simp add: init_state_def print_def)
  from upsert_batches_reported [of example_vectors flaky_services 2 "init_state 1"] ne empty
  show ?thesis
    by (simp add: bat rep strs init)
qed

text \<open>
  With an index that raises on every upsert the call returns \<^verbatim>\<open>None\<close>, as it does when
  every upsert succeeds, and its last line reports all three vectors as inserted.
\<close>

theorem upsert_batches_reported_counterexample:
  "fst (upsert_to_pinecone down_services example_vectors 100 (init_state ())) = Inr ()
   \<and> fst (upsert_to_pinecone up_services example_vectors 100 (init_state ())) = Inr ()
   \<and> out (snd (upsert_to_pinecone down_services example_vectors 100 (init_state ())))
       = [''Upserting 3 vectors in batches of 100'',
          ''  Error upserting batch 1: index unavailable'',
          check_mark @ '' Successfully inserted 3 policy chunks'']"
  by code_simp

end
